theory Spec2Isabelle
  imports Main "HOL-Library.Word"
begin

unbundle bit_operations_syntax

section \<open>Data of the folder monitor\<close>

text \<open>
  The program (\<^verbatim>\<open>foldermon.go\<close>) is a single event loop around three library facilities:
  the file-system calls of \<^verbatim>\<open>os\<close> and \<^verbatim>\<open>path/filepath\<close>, the archive writer of
  \<^verbatim>\<open>archive/zip\<close> and the notification channels of \<^verbatim>\<open>fsnotify\<close>. The embedding keeps
  the control flow of the three source functions (\<^verbatim>\<open>main\<close>, \<^verbatim>\<open>zipAndMove\<close>,
  \<^verbatim>\<open>getFoldersFromArgs\<close>) and makes the environment explicit: the outcome of every
  library call that can fail is an input, every output (log line, print, sleep, file-system
  change) is appended to a chronological list of effects.

  An error value of Go is represented by its message.
\<close>

type_synonym byte = char
type_synonym error = string

subsection \<open>The clock\<close>

text \<open>
  \<^verbatim>\<open>time.Now()\<close> as the calendar fields of the local wall clock, which is all that
  \<^verbatim>\<open>Format\<close> reads.
\<close>

record wallclock =
  year :: nat
  month :: nat
  day :: nat
  hour :: nat
  minute :: nat
  second :: nat
  nanosecond :: nat

definition digit :: "nat \<Rightarrow> char" where
  "digit d = char_of (48 + d)"

fun digits :: "nat \<Rightarrow> string" where
  "digits n = (if n < 10 then [digit n] else digits (n div 10) @ [digit (n mod 10)])"

declare digits.simps [simp del]

text \<open>\<^verbatim>\<open>appendInt\<close> of package time: decimal digits, padded with zeros to the width.\<close>

definition appendInt :: "nat \<Rightarrow> nat \<Rightarrow> string" where
  "appendInt x width = replicate (width - length (digits x)) (CHR ''0'') @ digits x"

text \<open>\<^verbatim>\<open>t.Format("20060102_150405")\<close>.\<close>

definition Format :: "wallclock \<Rightarrow> string" where
  "Format t =
     appendInt (year t) 4 @ appendInt (month t) 2 @ appendInt (day t) 2 @ ''_'' @
     appendInt (hour t) 2 @ appendInt (minute t) 2 @ appendInt (second t) 2"

subsection \<open>The watched tree\<close>

text \<open>
  The watch folder as \<^verbatim>\<open>filepath.Walk\<close> finds it. A regular file carries its bytes and the
  outcome of each call the program makes on it; a directory carries the outcome of reading
  its names and its entries in the (lexical) order \<^verbatim>\<open>Walk\<close> visits them; \<open>NoStat\<close> is a
  name whose \<^verbatim>\<open>Lstat\<close> fails.
\<close>

record file_ops =
  rel_err :: "error option"
  entry_err :: "error option"
  open_err :: "error option"
  copy_err :: "(nat \<times> error) option"
  remove_err :: "error option"

datatype node =
    File "byte list" file_ops
  | Dir "error option" "(string \<times> node) list"
  | NoStat error

text \<open>What \<^verbatim>\<open>Walk\<close> hands to its callback: the pair \<^verbatim>\<open>(info, err)\<close>.\<close>

datatype visit =
    LstatFailed error
  | ReadDirFailed error
  | IsDirectory
  | Regular "byte list" file_ops

text \<open>
  \<^verbatim>\<open>filepath.Walk\<close> with a callback that never returns \<^verbatim>\<open>SkipDir\<close> or \<^verbatim>\<open>SkipAll\<close>
  (neither callback of the program does, and no system call returns them). The path is kept
  as the list of names below the root.
\<close>

fun walk :: "(string list \<Rightarrow> visit \<Rightarrow> 's \<Rightarrow> error option \<times> 's) \<Rightarrow> string list \<Rightarrow> node \<Rightarrow> 's \<Rightarrow> error option \<times> 's"
  and walk_names :: "(string list \<Rightarrow> visit \<Rightarrow> 's \<Rightarrow> error option \<times> 's) \<Rightarrow> string list \<Rightarrow> (string \<times> node) list \<Rightarrow> 's \<Rightarrow> error option \<times> 's"
where
  "walk walkFn path (File d ops) s = walkFn path (Regular d ops) s"
| "walk walkFn path (NoStat e) s = walkFn path (LstatFailed e) s"
| "walk walkFn path (Dir rd cs) s =
     (case rd of
        Some err \<Rightarrow> walkFn path (ReadDirFailed err) s
      | None \<Rightarrow>
          (case walkFn path IsDirectory s of
             (Some err1, s1) \<Rightarrow> (Some err1, s1)
           | (None, s1) \<Rightarrow> walk_names walkFn path cs s1))"
| "walk_names walkFn path [] s = (None, s)"
| "walk_names walkFn path (c # cs) s =
     (case walk walkFn (path @ [fst c]) (snd c) s of
        (Some err, s1) \<Rightarrow> (Some err, s1)
      | (None, s1) \<Rightarrow> walk_names walkFn path cs s1)"

definition Walk :: "(string list \<Rightarrow> visit \<Rightarrow> 's \<Rightarrow> error option \<times> 's) \<Rightarrow> node \<Rightarrow> 's \<Rightarrow> error option \<times> 's" where
  "Walk walkFn root s = walk walkFn [] root s"

subsection \<open>Outputs and the persistent state\<close>

datatype effect =
    Log string
  | Stderr string
  | Stdout string
  | Sleep int
  | OsCreate string
  | OsRename string string
  | OsRemove string
  | OsMkdirAll string
  | WatcherAdd string
  | ZipWriterClose "error option"
  | FileClose "error option"

text \<open>
  An archive file on disk: the entries (name and uncompressed bytes, in the order they were
  created) and whether \<^verbatim>\<open>zipWriter.Close()\<close> succeeded on it, which is when the central
  directory of the archive is written.
\<close>

record zip_file =
  entries :: "(string \<times> byte list) list"
  writer_closed :: bool

text \<open>
  The state the process changes: whether the backup folder exists as a directory, the files
  it wrote (by path), everything it put out so far, and the two package-level variables.
\<close>

record world =
  backup_dir :: bool
  files :: "(string \<times> zip_file) list"
  out :: "effect list"
  pkg_watchFolder :: string
  pkg_backupFolder :: string

text \<open>The environment of one run of \<^verbatim>\<open>zipAndMove\<close>.\<close>

record run_env =
  now :: wallclock
  tree :: node
  create_err :: "error option"
  rename_err :: "error option"
  zipclose_err :: "error option"
  fileclose_err :: "error option"

definition emit :: "effect \<Rightarrow> world \<Rightarrow> world" where
  "emit e w = w\<lparr>out := out w @ [e]\<rparr>"

definition put_file :: "string \<Rightarrow> zip_file \<Rightarrow> (string \<times> zip_file) list \<Rightarrow> (string \<times> zip_file) list" where
  "put_file p b fs = (p, b) # filter (\<lambda>kv. fst kv \<noteq> p) fs"

subsection \<open>Paths\<close>

text \<open>
  \<^verbatim>\<open>filepath.Join\<close> of a non-empty directory path in clean form and a name, with the Unix
  separator; the path \<^verbatim>\<open>Walk\<close> builds for the names below the root; and
  \<^verbatim>\<open>filepath.Rel(watchFolder, path)\<close> on such a path.
\<close>

definition Join :: "string \<Rightarrow> string \<Rightarrow> string" where
  "Join dir name = dir @ ''/'' @ name"

definition walk_path :: "string \<Rightarrow> string list \<Rightarrow> string" where
  "walk_path root names = foldl Join root names"

fun slashed :: "string list \<Rightarrow> string" where
  "slashed [] = []"
| "slashed [n] = n"
| "slashed (n # m # ns) = n @ ''/'' @ slashed (m # ns)"

definition Rel :: "string list \<Rightarrow> string" where
  "Rel names = (if names = [] then ''.'' else slashed names)"

section \<open>zipAndMove\<close>

text \<open>
  \<^verbatim>\<open>os.Create\<close>: fails when the directory is missing or when the environment says so;
  otherwise the file exists afterwards and is empty (an existing file is truncated).
\<close>

definition os_Create :: "run_env \<Rightarrow> string \<Rightarrow> world \<Rightarrow> error option \<times> world" where
  "os_Create env p w =
     (case create_err env of
        Some err \<Rightarrow> (Some err, w)
      | None \<Rightarrow>
          if \<not> backup_dir w then (Some (''open '' @ p @ '': no such file or directory''), w)
          else (None, emit (OsCreate p)
                  (w\<lparr>files := put_file p \<lparr>entries = [], writer_closed = False\<rparr> (files w)\<rparr>)))"

text \<open>\<^verbatim>\<open>os.Rename\<close>: the file moves from the old path to the new one.\<close>

definition os_Rename :: "run_env \<Rightarrow> string \<Rightarrow> string \<Rightarrow> world \<Rightarrow> error option \<times> world" where
  "os_Rename env old new w =
     (case rename_err env of
        Some err \<Rightarrow> (Some err, w)
      | None \<Rightarrow>
          (case map_of (files w) old of
             None \<Rightarrow> (Some (''rename '' @ old @ '' '' @ new @ '': no such file or directory''), w)
           | Some b \<Rightarrow>
               (None, emit (OsRename old new)
                  (w\<lparr>files := put_file new b (filter (\<lambda>kv. fst kv \<noteq> old) (files w))\<rparr>))))"

text \<open>
  The callback of the archiving walk. Its state is the archive writer (the entries created
  so far) and the lines the walk has logged; \<^verbatim>\<open>zipAndMove\<close> starts it with both empty and
  appends the lines to the output.
\<close>

type_synonym zip_state = "(string \<times> byte list) list \<times> effect list"

definition archiveFn :: "string \<Rightarrow> string list \<Rightarrow> visit \<Rightarrow> zip_state \<Rightarrow> error option \<times> zip_state" where
  "archiveFn watchFolder path v s =
     (case v of
        LstatFailed err \<Rightarrow> (Some err, s)
      | ReadDirFailed err \<Rightarrow> (Some err, s)
      | IsDirectory \<Rightarrow> (None, s)
      | Regular d ops \<Rightarrow>
          (case rel_err ops of
             Some err \<Rightarrow> (Some err, s)
           | None \<Rightarrow>
               (case entry_err ops of
                  Some err \<Rightarrow> (Some err, s)
                | None \<Rightarrow>
                    (case open_err ops of
                       Some err \<Rightarrow> (Some err, (fst s @ [(Rel path, [])], snd s))
                     | None \<Rightarrow>
                         (case copy_err ops of
                            Some (k, err) \<Rightarrow> (Some err, (fst s @ [(Rel path, take k d)], snd s))
                          | None \<Rightarrow>
                              (None, (fst s @ [(Rel path, d)],
                                      snd s @ [Log (''Added to zip: '' @ walk_path watchFolder path)])))))))"

text \<open>The callback of the deleting walk; its state is the effects of the walk so far.\<close>

definition deleteFn :: "string \<Rightarrow> string list \<Rightarrow> visit \<Rightarrow> effect list \<Rightarrow> error option \<times> effect list" where
  "deleteFn watchFolder path v s =
     (case v of
        LstatFailed err \<Rightarrow> (Some err, s)
      | ReadDirFailed err \<Rightarrow> (Some err, s)
      | IsDirectory \<Rightarrow> (None, s)
      | Regular d ops \<Rightarrow>
          (case remove_err ops of
             Some err \<Rightarrow> (Some err, s)
           | None \<Rightarrow>
               (None, s @ [OsRemove (walk_path watchFolder path),
                           Log (''Deleted: '' @ walk_path watchFolder path)])))"

text \<open>The source sets \<^verbatim>\<open>deleteAfterZip = false\<close>; the model takes the flag as a parameter.\<close>

definition deleteAfterZip :: bool where
  "deleteAfterZip = False"

definition delete_files :: "bool \<Rightarrow> string \<Rightarrow> run_env \<Rightarrow> world \<Rightarrow> world" where
  "delete_files del watchFolder env w =
     (if del then
        (case Walk (deleteFn watchFolder) (tree env) [] of
           (Some err, lg) \<Rightarrow> w\<lparr>out := out w @ lg @ [Log (''Error deleting files: '' @ err)]\<rparr>
         | (None, lg) \<Rightarrow> w\<lparr>out := out w @ lg\<rparr>)
      else w)"

text \<open>
  The two deferred calls, in the order they run: \<^verbatim>\<open>zipWriter.Close()\<close>, which flushes
  what the writer buffered and writes the central directory, then \<^verbatim>\<open>zipFile.Close()\<close>.
  Both results are dropped. The file is the one the open handle refers to, at the path
  \<open>p\<close> where it now lives.
\<close>

definition deferred_close :: "run_env \<Rightarrow> string \<Rightarrow> (string \<times> byte list) list \<Rightarrow> world \<Rightarrow> world" where
  "deferred_close env p zw w =
     emit (FileClose (fileclose_err env))
       (emit (ZipWriterClose (zipclose_err env))
          (w\<lparr>files := put_file p \<lparr>entries = zw, writer_closed = (zipclose_err env = None)\<rparr> (files w)\<rparr>))"

definition zipFileName :: "wallclock \<Rightarrow> string" where
  "zipFileName t = ''backup_'' @ Format t @ ''.zip''"

definition zipAndMove :: "bool \<Rightarrow> string \<Rightarrow> string \<Rightarrow> run_env \<Rightarrow> world \<Rightarrow> error option \<times> world" where
  "zipAndMove del watchFolder backupFolder env w =
     (let zipFilePath = Join backupFolder (zipFileName (now env)) in
      case os_Create env zipFilePath w of
        (Some err, w1) \<Rightarrow> (Some err, emit (Log (''Failed to create zip: '' @ err)) w1)
      | (None, w1) \<Rightarrow>
          (let w2 = emit (Stdout (''Zip file path: '' @ zipFilePath)) w1 in
           case Walk (archiveFn watchFolder) (tree env) ([], []) of
             (Some err, (zw, lg)) \<Rightarrow>
               (Some err,
                deferred_close env zipFilePath zw
                  (emit (Log (''Error creating zip archive: '' @ err)) (w2\<lparr>out := out w2 @ lg\<rparr>)))
           | (None, (zw, lg)) \<Rightarrow>
               (let destPath = Join backupFolder (zipFileName (now env)) in
                case os_Rename env zipFilePath destPath (w2\<lparr>out := out w2 @ lg\<rparr>) of
                  (Some err, w4) \<Rightarrow>
                    (Some err,
                     deferred_close env zipFilePath zw
                       (emit (Log (''Failed to move zip file: '' @ err)) w4))
                | (None, w4) \<Rightarrow>
                    (None,
                     deferred_close env destPath zw
                       (delete_files del watchFolder env
                          (emit (Log (''Moved zip to: '' @ destPath)) w4))))))"

section \<open>getFoldersFromArgs\<close>

text \<open>
  The three results of the source function, or \<open>None\<close> where it panics: with an empty
  \<^verbatim>\<open>os.Args\<close> the usage message indexes \<^verbatim>\<open>os.Args[0]\<close> out of range. The function
  assigns the package-level \<^verbatim>\<open>watchFolder\<close>; its \<^verbatim>\<open>backupFolder\<close> is a local.
\<close>

definition getFoldersFromArgs :: "string list \<Rightarrow> world \<Rightarrow> (string \<times> string \<times> error option) option \<times> world" where
  "getFoldersFromArgs Args w =
     (if length Args \<noteq> 3 then
        (case Args of
           [] \<Rightarrow> (None, w)
         | a0 # _ \<Rightarrow> (Some ([], [], Some (''usage: '' @ a0 @ '' <watchFolder> <backupFolder>'')), w))
      else (Some (Args ! 1, Args ! 2, None), w\<lparr>pkg_watchFolder := Args ! 1\<rparr>))"

section \<open>main\<close>

text \<open>
  An event of \<^verbatim>\<open>fsnotify\<close>: the name and the operation bits
  (\<^verbatim>\<open>Create Op = 1 << iota\<close>, then \<^verbatim>\<open>Write\<close>, \<^verbatim>\<open>Remove\<close>, \<^verbatim>\<open>Rename\<close>, \<^verbatim>\<open>Chmod\<close>, on
  \<^verbatim>\<open>uint32\<close>).
\<close>

record event =
  Name :: string
  Op :: "32 word"

definition Create :: "32 word" where "Create = 1"
definition Write :: "32 word" where "Write = 2"
definition Remove :: "32 word" where "Remove = 4"
definition Rename :: "32 word" where "Rename = 8"
definition Chmod :: "32 word" where "Chmod = 16"

text \<open>
  What one \<^verbatim>\<open>select\<close> of the monitor loop receives. An event comes with the environment
  the run it may trigger would find.
\<close>

datatype msg =
    Event event run_env
  | EventsClosed
  | WatcherError error
  | ErrorsClosed

text \<open>
  How the process stands after a finite sequence of receives: still in the loop, returned
  from \<^verbatim>\<open>main\<close>, ended by \<^verbatim>\<open>os.Exit\<close> with a code, or ended by a run-time panic.
\<close>

datatype status = Running | Returned | Exited nat | Panicked

fun monitor :: "bool \<Rightarrow> string \<Rightarrow> string \<Rightarrow> msg list \<Rightarrow> world \<Rightarrow> status \<times> world" where
  "monitor del watchFolder backupFolder [] w = (Running, w)"
| "monitor del watchFolder backupFolder (EventsClosed # ms) w = (Returned, w)"
| "monitor del watchFolder backupFolder (ErrorsClosed # ms) w = (Returned, w)"
| "monitor del watchFolder backupFolder (WatcherError err # ms) w =
     monitor del watchFolder backupFolder ms (emit (Log (''Watcher error: '' @ err)) w)"
| "monitor del watchFolder backupFolder (Event ev env # ms) w =
     (if Op ev AND Create = Create then
        (let w1 = emit (Log (''Detected new file: '' @ Name ev)) w;
             w2 = emit (Sleep 1000000000) w1 in
         case zipAndMove del watchFolder backupFolder env w2 of
           (Some err, w3) \<Rightarrow> (Exited 1, emit (Stdout (''Error during zip and move: '' @ err)) w3)
         | (None, w3) \<Rightarrow> monitor del watchFolder backupFolder ms w3)
      else monitor del watchFolder backupFolder ms w)"

text \<open>The environment of the start-up.\<close>

record start_env =
  Args :: "string list"
  logfile_err :: "error option"
  mkdir_err :: "error option"
  watcher_err :: "error option"
  add_err :: "error option"

text \<open>
  \<^verbatim>\<open>os.MkdirAll\<close>: nothing to do and no error when the directory exists; otherwise it is
  created unless the environment makes the call fail.
\<close>

definition os_MkdirAll :: "start_env \<Rightarrow> string \<Rightarrow> world \<Rightarrow> error option \<times> world" where
  "os_MkdirAll se p w =
     (if backup_dir w then (None, emit (OsMkdirAll p) w)
      else
        (case mkdir_err se of
           Some err \<Rightarrow> (Some err, emit (OsMkdirAll p) w)
         | None \<Rightarrow> (None, emit (OsMkdirAll p) (w\<lparr>backup_dir := True\<rparr>))))"

definition main :: "bool \<Rightarrow> start_env \<Rightarrow> msg list \<Rightarrow> world \<Rightarrow> status \<times> world" where
  "main del se msgs w =
     (case logfile_err se of
        Some err \<Rightarrow> (Exited 1, emit (Stderr err) w)
      | None \<Rightarrow>
          (let w1 = emit (Log ''Starting folder monitor...'') w in
           case getFoldersFromArgs (Args se) w1 of
             (None, w2) \<Rightarrow> (Panicked, w2)
           | (Some (watchFolder, backupFolder, Some err), w2) \<Rightarrow> (Exited 1, emit (Log err) w2)
           | (Some (watchFolder, backupFolder, None), w2) \<Rightarrow>
               (let w3 = emit (Stdout (''Watching folder: '' @ watchFolder)) w2;
                    w4 = emit (Stdout (''Backup folder: '' @ backupFolder)) w3;
                    w5 = snd (os_MkdirAll se backupFolder w4) in
                case watcher_err se of
                  Some err \<Rightarrow> (Exited 1, emit (Log err) w5)
                | None \<Rightarrow>
                    (case add_err se of
                       Some err \<Rightarrow> (Exited 1, emit (Log err) w5)
                     | None \<Rightarrow>
                         monitor del watchFolder backupFolder msgs
                           (emit (WatcherAdd watchFolder) w5)))))"

section \<open>Walk order, regular files and faults of a tree\<close>

text \<open>
  Notions the statements below are written in. \<open>visits\<close> is the sequence of callback
  invocations of a walk that is not cut short; \<open>run_visits\<close> runs a callback over such a
  sequence and stops at the first error it returns. \<open>regular_files\<close> lists the regular files
  of a tree with their paths relative to the root (as name lists), \<open>healthy\<close> says that no
  call of an archiving walk can fail on the tree, \<open>faults\<close> lists the errors such a walk can
  meet, and \<open>news w w'\<close> are the effects added between two states. The bytes of a file are
  written as characters.
\<close>

fun visits :: "string list \<Rightarrow> node \<Rightarrow> (string list \<times> visit) list"
  and visits_names :: "string list \<Rightarrow> (string \<times> node) list \<Rightarrow> (string list \<times> visit) list"
where
  "visits path (File d ops) = [(path, Regular d ops)]"
| "visits path (NoStat e) = [(path, LstatFailed e)]"
| "visits path (Dir (Some err) cs) = [(path, ReadDirFailed err)]"
| "visits path (Dir None cs) = (path, IsDirectory) # visits_names path cs"
| "visits_names path [] = []"
| "visits_names path (c # cs) = visits (path @ [fst c]) (snd c) @ visits_names path cs"

fun run_visits :: "(string list \<Rightarrow> visit \<Rightarrow> 's \<Rightarrow> error option \<times> 's) \<Rightarrow> (string list \<times> visit) list \<Rightarrow> 's \<Rightarrow> error option \<times> 's" where
  "run_visits walkFn [] s = (None, s)"
| "run_visits walkFn (pv # vs) s =
     (case walkFn (fst pv) (snd pv) s of
        (Some err, s1) \<Rightarrow> (Some err, s1)
      | (None, s1) \<Rightarrow> run_visits walkFn vs s1)"

fun regular_files :: "node \<Rightarrow> (string list \<times> byte list \<times> file_ops) list"
  and regular_files_names :: "(string \<times> node) list \<Rightarrow> (string list \<times> byte list \<times> file_ops) list"
where
  "regular_files (File d ops) = [([], d, ops)]"
| "regular_files (NoStat e) = []"
| "regular_files (Dir rd cs) = regular_files_names cs"
| "regular_files_names [] = []"
| "regular_files_names (c # cs) =
     map (\<lambda>f. (fst c # fst f, snd f)) (regular_files (snd c)) @ regular_files_names cs"

definition ops_ok :: "file_ops \<Rightarrow> bool" where
  "ops_ok ops = (rel_err ops = None \<and> entry_err ops = None \<and> open_err ops = None \<and> copy_err ops = None)"

fun healthy :: "node \<Rightarrow> bool" and healthy_names :: "(string \<times> node) list \<Rightarrow> bool" where
  "healthy (File d ops) = ops_ok ops"
| "healthy (NoStat e) = False"
| "healthy (Dir rd cs) = (rd = None \<and> healthy_names cs)"
| "healthy_names [] = True"
| "healthy_names (c # cs) = (healthy (snd c) \<and> healthy_names cs)"

fun faults :: "node \<Rightarrow> error list" and faults_names :: "(string \<times> node) list \<Rightarrow> error list" where
  "faults (File d ops) =
     (case rel_err ops of Some e \<Rightarrow> [e] | None \<Rightarrow> []) @
     (case entry_err ops of Some e \<Rightarrow> [e] | None \<Rightarrow> []) @
     (case open_err ops of Some e \<Rightarrow> [e] | None \<Rightarrow> []) @
     (case copy_err ops of Some ke \<Rightarrow> [snd ke] | None \<Rightarrow> [])"
| "faults (NoStat e) = [e]"
| "faults (Dir rd cs) = (case rd of Some e \<Rightarrow> [e] | None \<Rightarrow> []) @ faults_names cs"
| "faults_names [] = []"
| "faults_names (c # cs) = faults (snd c) @ faults_names cs"

definition entry_of :: "string list \<times> byte list \<times> file_ops \<Rightarrow> string \<times> byte list" where
  "entry_of f = (Rel (fst f), fst (snd f))"

definition added_line :: "string \<Rightarrow> string list \<times> byte list \<times> file_ops \<Rightarrow> effect" where
  "added_line wd f = Log (''Added to zip: '' @ walk_path wd (fst f))"

definition news :: "world \<Rightarrow> world \<Rightarrow> effect list" where
  "news w w' = drop (length (out w)) (out w')"

text \<open>
  For the monitor loop: a message is \<open>quiet\<close> when it is a watcher error or an event without
  the creation flag, and \<open>watcher_lines\<close> are the log lines of the watcher errors of a
  sequence of messages.
\<close>

fun watcher_lines :: "msg list \<Rightarrow> effect list" where
  "watcher_lines [] = []"
| "watcher_lines (WatcherError err # ms) = Log (''Watcher error: '' @ err) # watcher_lines ms"
| "watcher_lines (m # ms) = watcher_lines ms"

fun quiet :: "msg \<Rightarrow> bool" where
  "quiet (WatcherError err) = True"
| "quiet (Event ev env) = (Op ev AND Create \<noteq> Create)"
| "quiet EventsClosed = False"
| "quiet ErrorsClosed = False"

text \<open>
  For the names of the bundles: a clock reading is valid when its fields are in their
  calendar ranges, and two readings are in the same second when they agree on everything
  but the nanoseconds.
\<close>

definition valid_clock :: "wallclock \<Rightarrow> bool" where
  "valid_clock t = (1 \<le> month t \<and> month t \<le> 12 \<and> 1 \<le> day t \<and> day t \<le> 31 \<and>
                    hour t < 24 \<and> minute t < 60 \<and> second t < 60)"

definition same_second :: "wallclock \<Rightarrow> wallclock \<Rightarrow> bool" where
  "same_second a b = (year a = year b \<and> month a = month b \<and> day a = day b \<and>
                      hour a = hour b \<and> minute a = minute b \<and> second a = second b)"

text \<open>
  The names of a tree are in order when the names in each directory are distinct and none
  contains the separator, as in every file system.
\<close>

fun names_ok :: "node \<Rightarrow> bool" and names_ok_names :: "(string \<times> node) list \<Rightarrow> bool" where
  "names_ok (File d ops) = True"
| "names_ok (NoStat e) = True"
| "names_ok (Dir rd cs) = (distinct (map fst cs) \<and> names_ok_names cs)"
| "names_ok_names [] = True"
| "names_ok_names (c # cs) = (CHR ''/'' \<notin> set (fst c) \<and> names_ok (snd c) \<and> names_ok_names cs)"

text \<open>
  For the deleting walk: \<open>delete_list\<close> removes the files of a list in order and stops at the
  first one whose removal fails; \<open>removed\<close> picks the paths removed out of a list of effects;
  a file is \<open>removable\<close> when its removal succeeds.
\<close>

fun delete_list :: "string \<Rightarrow> (string list \<times> byte list \<times> file_ops) list \<Rightarrow> effect list \<Rightarrow> error option \<times> effect list" where
  "delete_list wd [] s = (None, s)"
| "delete_list wd (f # fs) s =
     (case remove_err (snd (snd f)) of
        Some e \<Rightarrow> (Some e, s)
      | None \<Rightarrow> delete_list wd fs
                  (s @ [OsRemove (walk_path wd (fst f)), Log (''Deleted: '' @ walk_path wd (fst f))]))"

fun removed :: "effect list \<Rightarrow> string list" where
  "removed [] = []"
| "removed (OsRemove p # es) = p # removed es"
| "removed (e # es) = removed es"

definition removable :: "string list \<times> byte list \<times> file_ops \<Rightarrow> bool" where
  "removable f = (remove_err (snd (snd f)) = None)"




section \<open>Concrete inputs\<close>

definition ex_world :: world where
  "ex_world = \<lparr>backup_dir = True, files = [], out = [], pkg_watchFolder = [], pkg_backupFolder = []\<rparr>"

definition ex_start :: "string list \<Rightarrow> start_env" where
  "ex_start as = \<lparr>Args = as, logfile_err = None, mkdir_err = None, watcher_err = None, add_err = None\<rparr>"

definition ex_ops :: file_ops where
  "ex_ops = \<lparr>rel_err = None, entry_err = None, open_err = None, copy_err = None, remove_err = None\<rparr>"

text \<open>The scenario of the specification: \<^verbatim>\<open>a.txt\<close> holding "hello" and \<^verbatim>\<open>sub/b.txt\<close> holding "world".\<close>

definition ex_tree :: node where
  "ex_tree = Dir None [(''a.txt'', File ''hello'' ex_ops),
                       (''sub'', Dir None [(''b.txt'', File ''world'' ex_ops)])]"

text \<open>A tree whose second file fails while it is copied, two bytes in.\<close>

definition ex_bad_tree :: node where
  "ex_bad_tree = Dir None [(''a.txt'', File ''hello'' ex_ops),
                           (''b.txt'', File ''world'' (ex_ops\<lparr>copy_err := Some (2, ''read in/b.txt: input/output error'')\<rparr>)),
                           (''c.txt'', File ''later'' ex_ops)]"

text \<open>A second tree, for a later run.\<close>

definition ex_tree2 :: node where
  "ex_tree2 = Dir None [(''c.txt'', File ''again'' ex_ops)]"

text \<open>A tree whose second file cannot be removed.\<close>

definition ex_locked_tree :: node where
  "ex_locked_tree = Dir None [(''a.txt'', File ''hello'' ex_ops),
                              (''b.txt'', File ''world'' (ex_ops\<lparr>remove_err := Some ''remove in/b.txt: permission denied''\<rparr>)),
                              (''c.txt'', File ''later'' ex_ops)]"

definition ex_clock :: wallclock where
  "ex_clock = \<lparr>year = 2025, month = 3, day = 9, hour = 7, minute = 5, second = 0, nanosecond = 0\<rparr>"

definition ex_env :: "node \<Rightarrow> wallclock \<Rightarrow> run_env" where
  "ex_env t c = \<lparr>now = c, tree = t, create_err = None, rename_err = None,
                 zipclose_err = None, fileclose_err = None\<rparr>"

definition ex_event :: "32 word \<Rightarrow> event" where
  "ex_event o1 = \<lparr>Name = ''in/new.txt'', Op = o1\<rparr>"

section \<open>The walk as a run over its visits\<close>

lemma run_visits_append:
  "run_visits f (xs @ ys) s =
     (case run_visits f xs s of (Some err, s1) \<Rightarrow> (Some err, s1) | (None, s1) \<Rightarrow> run_visits f ys s1)"
  by (induction xs arbitrary: s) (auto split: prod.splits option.splits)

lemma walk_run_visits:
  "walk f p t s = run_visits f (visits p t) s"
  "walk_names f p cs s = run_visits f (visits_names p cs) s"
  by (induction p t and p cs arbitrary: s and s rule: visits_visits_names.induct)
     (auto simp: run_visits_append split: prod.splits option.splits)

lemma archive_healthy:
  "healthy t \<Longrightarrow>
     run_visits (archiveFn wd) (visits p t) (zw, o1) =
       (None, (zw @ map (\<lambda>f. entry_of (p @ fst f, snd f)) (regular_files t),
               o1 @ map (\<lambda>f. added_line wd (p @ fst f, snd f)) (regular_files t)))"
  "healthy_names cs \<Longrightarrow>
     run_visits (archiveFn wd) (visits_names p cs) (zw, o1) =
       (None, (zw @ map (\<lambda>f. entry_of (p @ fst f, snd f)) (regular_files_names cs),
               o1 @ map (\<lambda>f. added_line wd (p @ fst f, snd f)) (regular_files_names cs)))"
proof (induction p t and p cs arbitrary: zw o1 and zw o1 rule: visits_visits_names.induct)
  case (1 path d ops)
  then show ?case by (simp add: archiveFn_def ops_ok_def entry_of_def added_line_def)
next
  case (4 path cs)
  then show ?case by (simp add: archiveFn_def)
next
  case (6 path c cs)
  then show ?case by (simp add: run_visits_append o_def)
qed simp_all


lemma archive_unhealthy:
  "\<not> healthy t \<Longrightarrow>
     \<exists>e zs fs. run_visits (archiveFn wd) (visits p t) (zw, o1) =
                 (Some e, (zw @ zs, o1 @ map (added_line wd) fs)) \<and> e \<in> set (faults t)"
  "\<not> healthy_names cs \<Longrightarrow>
     \<exists>e zs fs. run_visits (archiveFn wd) (visits_names p cs) (zw, o1) =
                 (Some e, (zw @ zs, o1 @ map (added_line wd) fs)) \<and> e \<in> set (faults_names cs)"
proof (induction p t and p cs arbitrary: zw o1 and zw o1 rule: visits_visits_names.induct)
  case (1 path d ops)
  have nil: "o1 = o1 @ map (added_line wd) []" by simp
  from 1 show ?case
    apply (simp add: archiveFn_def ops_ok_def split: option.splits)
    apply (intro conjI impI allI)
    apply (auto intro: exI[of _ "[]"])
    done
next
  case (2 path e)
  show ?case by (auto simp: archiveFn_def intro: exI[of _ "[]"])
next
  case (3 path err cs)
  show ?case by (auto simp: archiveFn_def intro: exI[of _ "[]"])
next
  case (4 path cs)
  then have "\<not> healthy_names cs" by simp
  from 4(1)[OF this, of zw o1] show ?case by (auto simp: archiveFn_def)
next
  case (5 path)
  then show ?case by simp
next
  case (6 path c cs)
  show ?case
  proof (cases "healthy (snd c)")
    case False
    from 6(1)[OF False, of zw o1] show ?thesis
      by (auto simp: run_visits_append)
  next
    case True
    with 6(3) have nh: "\<not> healthy_names cs" by simp
    let ?zs = "map (\<lambda>f. entry_of ((path @ [fst c]) @ fst f, snd f)) (regular_files (snd c))"
    let ?fs = "map (\<lambda>f. ((path @ [fst c]) @ fst f, snd f)) (regular_files (snd c))"
    from 6(2)[OF nh, of "zw @ ?zs" "o1 @ map (added_line wd) ?fs"]
    obtain e zs fs where
      r: "run_visits (archiveFn wd) (visits_names path cs) (zw @ ?zs, o1 @ map (added_line wd) ?fs) =
            (Some e, ((zw @ ?zs) @ zs, (o1 @ map (added_line wd) ?fs) @ map (added_line wd) fs))"
      and e: "e \<in> set (faults_names cs)" by blast
    have h: "run_visits (archiveFn wd) (visits (path @ [fst c]) (snd c)) (zw, o1) =
               (None, (zw @ ?zs, o1 @ map (added_line wd) ?fs))"
      using archive_healthy(1)[OF True, of wd "path @ [fst c]" zw o1] by (simp add: o_def)
    have "run_visits (archiveFn wd) (visits_names path (c # cs)) (zw, o1) =
            (Some e, (zw @ (?zs @ zs), o1 @ map (added_line wd) (?fs @ fs)))"
      using h r by (simp add: run_visits_append)
    moreover from e have "e \<in> set (faults_names (c # cs))" by simp
    ultimately show ?thesis by blast
  qed
qed

section \<open>The outcomes of zipAndMove\<close>

lemma map_of_drop_key: "map_of (filter (\<lambda>kv. fst kv \<noteq> p) fs) q = (if q = p then None else map_of fs q)"
  by (induction fs) auto

lemma map_of_put_file: "map_of (put_file p b fs) q = (if q = p then Some b else map_of fs q)"
  by (simp add: put_file_def map_of_drop_key)

lemma Walk_archive_healthy:
  "healthy t \<Longrightarrow>
     Walk (archiveFn wd) t ([], []) =
       (None, (map entry_of (regular_files t), map (added_line wd) (regular_files t)))"
  using archive_healthy(1)[of t wd "[]" "[]" "[]"]
  by (simp add: Walk_def walk_run_visits)

lemma Walk_archive_unhealthy:
  "\<not> healthy t \<Longrightarrow>
     \<exists>e zs fs. Walk (archiveFn wd) t ([], []) = (Some e, (zs, map (added_line wd) fs)) \<and> e \<in> set (faults t)"
  using archive_unhealthy(1)[of t wd "[]" "[]" "[]"]
  by (simp add: Walk_def walk_run_visits)

lemma zipAndMove_create_fails:
  "create_err env = Some e \<Longrightarrow>
     zipAndMove del wd bd env w = (Some e, emit (Log (''Failed to create zip: '' @ e)) w)"
  by (simp add: zipAndMove_def Let_def os_Create_def)

lemma zipAndMove_no_directory:
  "create_err env = None \<Longrightarrow> \<not> backup_dir w \<Longrightarrow>
     zipAndMove del wd bd env w =
       (Some (''open '' @ Join bd (zipFileName (now env)) @ '': no such file or directory''),
        emit (Log (''Failed to create zip: '' @ ''open '' @ Join bd (zipFileName (now env)) @ '': no such file or directory'')) w)"
  by (simp add: zipAndMove_def Let_def os_Create_def)

lemma zipAndMove_walk_fails:
  assumes "create_err env = None" "backup_dir w"
    and "Walk (archiveFn wd) (tree env) ([], []) = (Some e, (zw, lg))"
    and "p = Join bd (zipFileName (now env))"
  shows "zipAndMove del wd bd env w =
    (Some e,
     w\<lparr>files := put_file p \<lparr>entries = zw, writer_closed = (zipclose_err env = None)\<rparr>
                  (put_file p \<lparr>entries = [], writer_closed = False\<rparr> (files w)),
       out := out w @ [OsCreate p, Stdout (''Zip file path: '' @ p)] @ lg @
              [Log (''Error creating zip archive: '' @ e),
               ZipWriterClose (zipclose_err env), FileClose (fileclose_err env)]\<rparr>)"
  using assms
  by (simp add: zipAndMove_def Let_def os_Create_def deferred_close_def emit_def)

lemma zipAndMove_rename_fails:
  assumes "create_err env = None" "backup_dir w"
    and "Walk (archiveFn wd) (tree env) ([], []) = (None, (zw, lg))"
    and "rename_err env = Some e"
    and "p = Join bd (zipFileName (now env))"
  shows "zipAndMove del wd bd env w =
    (Some e,
     w\<lparr>files := put_file p \<lparr>entries = zw, writer_closed = (zipclose_err env = None)\<rparr>
                  (put_file p \<lparr>entries = [], writer_closed = False\<rparr> (files w)),
       out := out w @ [OsCreate p, Stdout (''Zip file path: '' @ p)] @ lg @
              [Log (''Failed to move zip file: '' @ e),
               ZipWriterClose (zipclose_err env), FileClose (fileclose_err env)]\<rparr>)"
  using assms
  by (simp add: zipAndMove_def Let_def os_Create_def os_Rename_def deferred_close_def emit_def)

lemma delete_files_out:
  "delete_files del wd env w =
     w\<lparr>out := out w @
        (if del then
           (case Walk (deleteFn wd) (tree env) [] of
              (Some err, lg) \<Rightarrow> lg @ [Log (''Error deleting files: '' @ err)]
            | (None, lg) \<Rightarrow> lg)
         else [])\<rparr>"
  by (simp add: delete_files_def split: prod.splits option.splits)

lemma put_file_twice: "put_file p b (filter (\<lambda>kv. fst kv \<noteq> p) (put_file p c fs)) = put_file p b fs"
  by (simp add: put_file_def)

lemma put_file_put_file: "put_file p b (put_file p c fs) = put_file p b fs"
  by (simp add: put_file_def)

lemma zipAndMove_succeeds:
  assumes "create_err env = None" "backup_dir w"
    and "Walk (archiveFn wd) (tree env) ([], []) = (None, (zw, lg))"
    and "rename_err env = None"
    and "p = Join bd (zipFileName (now env))"
  shows "zipAndMove del wd bd env w =
    (None,
     w\<lparr>files := put_file p \<lparr>entries = zw, writer_closed = (zipclose_err env = None)\<rparr> (files w),
       out := out w @ [OsCreate p, Stdout (''Zip file path: '' @ p)] @ lg @
              [OsRename p p, Log (''Moved zip to: '' @ p)] @
              (if del then
                 (case Walk (deleteFn wd) (tree env) [] of
                    (Some err, dl) \<Rightarrow> dl @ [Log (''Error deleting files: '' @ err)]
                  | (None, dl) \<Rightarrow> dl)
               else []) @
              [ZipWriterClose (zipclose_err env), FileClose (fileclose_err env)]\<rparr>)"
  using assms
  by (simp add: zipAndMove_def Let_def os_Create_def os_Rename_def deferred_close_def emit_def
      delete_files_out map_of_put_file put_file_twice put_file_put_file)

lemma news_append: "out w' = out w @ xs \<Longrightarrow> news w w' = xs"
  by (simp add: news_def)

section \<open>The first failing visit\<close>







section \<open>The monitor loop, one receive at a time\<close>

lemma monitor_create_step:
  "Op ev AND Create = Create \<Longrightarrow>
     monitor del wd bd (Event ev env # ms) w =
       (case zipAndMove del wd bd env
               (emit (Sleep 1000000000) (emit (Log (''Detected new file: '' @ Name ev)) w)) of
          (Some err, w3) \<Rightarrow> (Exited 1, emit (Stdout (''Error during zip and move: '' @ err)) w3)
        | (None, w3) \<Rightarrow> monitor del wd bd ms w3)"
  by (simp add: Let_def)

lemma other_flags_not_create:
  fixes x :: "32 word"
  assumes "x AND NOT (Write OR Remove OR Rename OR Chmod) = 0"
  shows "x AND Create \<noteq> Create"
proof
  assume "x AND Create = Create"
  then have "bit (x AND 1) 0 = bit (1::32 word) 0" by (simp add: Create_def)
  then have b: "bit x 0" by (simp add: bit_and_iff)
  have nb: "\<not> bit (Write OR Remove OR Rename OR Chmod :: 32 word) 0"
    by (simp add: Write_def Remove_def Rename_def Chmod_def bit_or_iff bit_0)
  have "bit (x AND NOT (Write OR Remove OR Rename OR Chmod)) 0"
    unfolding bit_and_iff bit_not_iff using b nb by simp
  with assms show False by simp
qed

lemma zipAndMove_first_action:
  "\<exists>zs. out (snd (zipAndMove del wd bd env w)) = out w @ zs
      \<and> ((\<exists>e. zs = [Log (''Failed to create zip: '' @ e)])
         \<or> (\<exists>rest. zs = OsCreate (Join bd (zipFileName (now env))) # rest))"
proof (cases "create_err env")
  case (Some e)
  show ?thesis unfolding zipAndMove_create_fails[OF Some] by (simp add: emit_def)
next
  case None
  show ?thesis
  proof (cases "backup_dir w")
    case False
    show ?thesis unfolding zipAndMove_no_directory[OF None False] by (simp add: emit_def)
  next
    case True
    obtain r zw lg where wk: "Walk (archiveFn wd) (tree env) ([], []) = (r, (zw, lg))"
      by (metis prod.exhaust)
    show ?thesis
    proof (cases r)
      case (Some e)
      show ?thesis unfolding zipAndMove_walk_fails[OF None True wk[unfolded Some] refl] by simp
    next
      case N: None
      show ?thesis
      proof (cases "rename_err env")
        case (Some e)
        show ?thesis unfolding zipAndMove_rename_fails[OF None True wk[unfolded N] Some refl] by simp
      next
        case R: None
        show ?thesis unfolding zipAndMove_succeeds[OF None True wk[unfolded N] R refl] by simp
      qed
    qed
  qed
qed

lemma monitor_quiet_prefix:
  "list_all quiet pre \<Longrightarrow>
     monitor del wd bd (pre @ ms) w = monitor del wd bd ms (w\<lparr>out := out w @ watcher_lines pre\<rparr>)"
proof (induction pre arbitrary: w)
  case Nil
  then show ?case by simp
next
  case (Cons m pre)
  then show ?case by (cases m) (simp_all add: emit_def)
qed

lemma monitor_stops:
  "fst (monitor del wd bd ms w) \<noteq> Running \<Longrightarrow>
     (fst (monitor del wd bd ms w) = Returned \<and> (EventsClosed \<in> set ms \<or> ErrorsClosed \<in> set ms))
   \<or> (fst (monitor del wd bd ms w) = Exited 1
        \<and> (\<exists>ev env. Event ev env \<in> set ms \<and> Op ev AND Create = Create))"
proof (induction del wd bd ms w rule: monitor.induct)
  case (5 del wd bd ev env ms w)
  show ?case
  proof (cases "Op ev AND Create = Create")
    case False
    with 5 show ?thesis by auto
  next
    case True
    obtain r w3 where z: "zipAndMove del wd bd env
        (emit (Sleep 1000000000) (emit (Log (''Detected new file: '' @ Name ev)) w)) = (r, w3)"
      by (metis prod.exhaust)
    show ?thesis
    proof (cases r)
      case None
      from 5(3) True z None have "fst (monitor del wd bd ms w3) \<noteq> Running"
        by (simp add: Let_def)
      from 5(1)[OF True refl refl z[symmetric] None this] True z None show ?thesis
        by (auto simp: Let_def)
    next
      case (Some e)
      with True z show ?thesis by (auto simp: Let_def)
    qed
  qed
qed auto

lemma main_enters_loop:
  assumes "length (Args se) = 3" and "logfile_err se = None" and "watcher_err se = None"
    and "add_err se = None" and "\<not> backup_dir w" and "mkdir_err se = Some e"
  shows "main del se msgs w =
     monitor del (Args se ! 1) (Args se ! 2) msgs
       (w\<lparr>pkg_watchFolder := Args se ! 1,
          out := out w @ [Log ''Starting folder monitor...'',
                          Stdout (''Watching folder: '' @ Args se ! 1),
                          Stdout (''Backup folder: '' @ Args se ! 2),
                          OsMkdirAll (Args se ! 2), WatcherAdd (Args se ! 1)]\<rparr>)"
  using assms
  by (simp add: main_def getFoldersFromArgs_def os_MkdirAll_def emit_def Let_def
        del: monitor.simps)

section \<open>The timestamp in the bundle name\<close>

lemma digit_inj: "a < 10 \<Longrightarrow> b < 10 \<Longrightarrow> digit a = digit b \<Longrightarrow> a = b"
proof -
  assume a: "a < 10" and b: "b < 10" and e: "digit a = digit b"
  from e have "(of_char (char_of (48 + a)) :: nat) = of_char (char_of (48 + b))"
    by (simp add: digit_def)
  then have "(48 + a) mod 256 = (48 + b) mod 256" by simp
  with a b show "a = b" by simp
qed

lemma digit_zero: "digit 0 = CHR ''0''"
  by code_simp

lemma digits_nonempty: "digits n \<noteq> []"
  using digits.simps[of n] by (cases "n < 10") simp_all

lemma digits_small: "n < 10 \<Longrightarrow> digits n = [digit n]"
  using digits.simps[of n] by simp

lemma digits_large: "10 \<le> n \<Longrightarrow> digits n = digits (n div 10) @ [digit (n mod 10)]"
  using digits.simps[of n] by simp

lemma digits_length_large: "10 \<le> n \<Longrightarrow> 2 \<le> length (digits n)"
proof -
  assume "10 \<le> n"
  then have "length (digits n) = Suc (length (digits (n div 10)))"
    by (simp only: digits_large length_append list.size)
  moreover have "0 < length (digits (n div 10))"
    using digits_nonempty[of "n div 10"] by simp
  ultimately show ?thesis by linarith
qed

lemma digits_hd: "n \<noteq> 0 \<Longrightarrow> hd (digits n) \<noteq> CHR ''0''"
proof (induction n rule: digits.induct)
  case (1 n)
  show ?case
  proof (cases "n < 10")
    case True
    with 1(2) digit_inj[of n 0] show ?thesis by (auto simp: digits_small digit_zero[symmetric])
  next
    case False
    then have "n div 10 \<noteq> 0" by simp
    with 1(1)[OF False] False digits_nonempty[of "n div 10"] show ?thesis
      by (simp add: digits_large)
  qed
qed

lemma digits_inj: "digits a = digits b \<Longrightarrow> a = b"
proof (induction a arbitrary: b rule: digits.induct)
  case (1 a)
  show ?case
  proof (cases "a < 10")
    case True
    show ?thesis
    proof (cases "b < 10")
      case b: True
      with True 1(2) show ?thesis by (simp add: digits_small digit_inj)
    next
      case False
      from 1(2) have "length (digits a) = length (digits b)" by simp
      with digits_length_large[of b] False True show ?thesis by (simp add: digits_small)
    qed
  next
    case False
    show ?thesis
    proof (cases "b < 10")
      case True
      from 1(2) have "length (digits a) = length (digits b)" by simp
      with digits_length_large[of a] False True show ?thesis by (simp add: digits_small)
    next
      case b: False
      from 1(2) False b have e: "digits (a div 10) = digits (b div 10)" "digit (a mod 10) = digit (b mod 10)"
        by (simp_all add: digits_large)
      from 1(1)[OF False e(1)] have "a div 10 = b div 10" .
      moreover from e(2) have "a mod 10 = b mod 10" by (intro digit_inj) simp_all
      ultimately have "10 * (a div 10) + a mod 10 = 10 * (b div 10) + b mod 10" by simp
      then show ?thesis by simp
    qed
  qed
qed

lemma replicate_prefix_diff:
  "k \<le> j \<Longrightarrow> replicate k c @ xs = replicate j c @ ys \<Longrightarrow> xs = replicate (j - k) c @ ys"
proof -
  assume kj: "k \<le> j" and e: "replicate k c @ xs = replicate j c @ ys"
  from kj have "replicate j c = replicate k c @ replicate (j - k) c"
    by (simp add: replicate_add[symmetric])
  with e show ?thesis by simp
qed

lemma appendInt_inj_le:
  assumes e: "appendInt x w = appendInt y w"
    and le: "w - length (digits x) \<le> w - length (digits y)"
  shows "x = y"
proof -
  let ?k = "w - length (digits x)" and ?j = "w - length (digits y)"
  from e le have d: "digits x = replicate (?j - ?k) (CHR ''0'') @ digits y"
    unfolding appendInt_def by (rule replicate_prefix_diff[rotated])
  show ?thesis
  proof (cases "?j - ?k = 0")
    case True
    with d show ?thesis by (simp add: digits_inj)
  next
    case False
    then obtain m where m: "?j - ?k = Suc m" by (cases "?j - ?k") auto
    from d m have h: "hd (digits x) = CHR ''0''" by simp
    from d m digits_nonempty[of y] have l: "2 \<le> length (digits x)"
      by (cases "digits y") simp_all
    have "x \<noteq> 0"
    proof
      assume "x = 0"
      with l show False by (simp add: digits_small)
    qed
    with digits_hd h show ?thesis by blast
  qed
qed

lemma appendInt_inj: "appendInt x w = appendInt y w \<Longrightarrow> x = y"
  using appendInt_inj_le[of x w y] appendInt_inj_le[of y w x]
  by (cases "w - length (digits x) \<le> w - length (digits y)") auto

lemma appendInt_two: "x < 100 \<Longrightarrow> length (appendInt x 2) = 2"
proof (cases "x < 10")
  case True
  then show ?thesis by (simp add: appendInt_def digits_small)
next
  case False
  assume "x < 100"
  with False have "x div 10 < 10" by simp
  with False show ?thesis by (simp add: appendInt_def digits_large digits_small)
qed

lemma Format_inj:
  assumes "valid_clock a" "valid_clock b" "Format a = Format b"
  shows "same_second a b"
proof -
  let ?ra = "appendInt (month a) 2 @ appendInt (day a) 2 @ ''_'' @
             appendInt (hour a) 2 @ appendInt (minute a) 2 @ appendInt (second a) 2"
  let ?rb = "appendInt (month b) 2 @ appendInt (day b) 2 @ ''_'' @
             appendInt (hour b) 2 @ appendInt (minute b) 2 @ appendInt (second b) 2"
  have la: "length (appendInt (month a) 2) = 2" "length (appendInt (day a) 2) = 2"
    "length (appendInt (hour a) 2) = 2" "length (appendInt (minute a) 2) = 2"
    "length (appendInt (second a) 2) = 2"
    using assms(1) by (simp_all add: valid_clock_def appendInt_two)
  have lb: "length (appendInt (month b) 2) = 2" "length (appendInt (day b) 2) = 2"
    "length (appendInt (hour b) 2) = 2" "length (appendInt (minute b) 2) = 2"
    "length (appendInt (second b) 2) = 2"
    using assms(2) by (simp_all add: valid_clock_def appendInt_two)
  have e: "appendInt (year a) 4 @ ?ra = appendInt (year b) 4 @ ?rb"
    using assms(3) by (simp add: Format_def)
  have l: "length ?ra = length ?rb" using la lb by simp
  from e l have y: "appendInt (year a) 4 = appendInt (year b) 4" and r: "?ra = ?rb"
    using append_eq_append_conv[of "appendInt (year a) 4" "appendInt (year b) 4" ?ra ?rb] by blast+
  from r la lb have p: "appendInt (month a) 2 = appendInt (month b) 2" "appendInt (day a) 2 = appendInt (day b) 2"
      "appendInt (hour a) 2 = appendInt (hour b) 2" "appendInt (minute a) 2 = appendInt (minute b) 2"
      "appendInt (second a) 2 = appendInt (second b) 2"
    by simp_all
  have "year a = year b" using y by (rule appendInt_inj)
  moreover have "month a = month b" using p(1) by (rule appendInt_inj)
  moreover have "day a = day b" using p(2) by (rule appendInt_inj)
  moreover have "hour a = hour b" using p(3) by (rule appendInt_inj)
  moreover have "minute a = minute b" using p(4) by (rule appendInt_inj)
  moreover have "second a = second b" using p(5) by (rule appendInt_inj)
  ultimately show ?thesis by (simp add: same_second_def)
qed

lemma zipFileName_same_second:
  "valid_clock a \<Longrightarrow> valid_clock b \<Longrightarrow> (zipFileName a = zipFileName b) = same_second a b"
proof
  assume "valid_clock a" "valid_clock b" "zipFileName a = zipFileName b"
  then have "Format a = Format b" by (simp add: zipFileName_def)
  with \<open>valid_clock a\<close> \<open>valid_clock b\<close> show "same_second a b" by (rule Format_inj)
next
  assume "same_second a b"
  then show "zipFileName a = zipFileName b"
    by (simp add: same_second_def zipFileName_def Format_def)
qed


lemma appendInt_two_digits: "x < 100 \<Longrightarrow> appendInt x 2 = [digit (x div 10), digit (x mod 10)]"
proof (cases "x < 10")
  case True
  then show ?thesis by (simp add: appendInt_def digits_small digit_zero)
next
  case False
  assume "x < 100"
  with False have "x div 10 < 10" by simp
  with False show ?thesis by (simp add: appendInt_def digits_large digits_small)
qed

lemma appendInt_four_digits:
  assumes "x < 10000"
  shows "appendInt x 4 = [digit (x div 1000), digit (x div 100 mod 10), digit (x div 10 mod 10), digit (x mod 10)]"
proof -
  consider "x < 10" | "10 \<le> x" "x < 100" | "100 \<le> x" "x < 1000" | "1000 \<le> x" by linarith
  then show ?thesis
  proof cases
    case 1
    then have z: "x div 1000 = 0" "x div 100 = 0" "x div 10 = 0" by simp_all
    have r: "replicate 3 (CHR ''0'') = ''000''" by (simp add: numeral_3_eq_3)
    from 1 show ?thesis by (simp add: appendInt_def digits_small digit_zero z r)
  next
    case 2
    then have s: "x div 10 < 10" and z: "x div 1000 = 0" "x div 100 = 0" by simp_all
    have r: "replicate 2 (CHR ''0'') = ''00''" by (simp add: numeral_2_eq_2)
    from 2 have m: "x div 10 mod 10 = x div 10" by simp
    from 2 show ?thesis
      by (simp add: appendInt_def digits_large[OF 2(1)] digits_small[OF s] digit_zero z r m)
  next
    case 3
    then have a: "10 \<le> x" "10 \<le> x div 10" "x div 10 div 10 < 10" by simp_all
    have b: "x div 10 div 10 = x div 100" by (simp add: div_mult2_eq[symmetric])
    from 3 have c: "x div 1000 = 0" by simp
    from 3 have m: "x div 100 mod 10 = x div 100" by simp
    have ds: "digits (x div 100) = [digit (x div 100)]" using digits_small[OF a(3)] b by simp
    show ?thesis
      by (simp add: appendInt_def digits_large[OF a(1)] digits_large[OF a(2)] ds digit_zero b c m)
  next
    case 4
    with assms have a: "10 \<le> x" "10 \<le> x div 10" "10 \<le> x div 10 div 10" "x div 10 div 10 div 10 < 10"
      by simp_all
    have b: "x div 10 div 10 = x div 100" "x div 10 div 10 div 10 = x div 1000"
      by (simp_all add: div_mult2_eq[symmetric])
    have m: "x div 1000 mod 10 = x div 1000" using assms by simp
    have ds: "digits (x div 1000) = [digit (x div 1000)]" using digits_small[OF a(4)] b by simp
    have dl: "digits (x div 100) = digits (x div 1000) @ [digit (x div 100 mod 10)]"
      using digits_large[OF a(3)] b by simp
    show ?thesis
      by (simp add: appendInt_def digits_large[OF a(1)] digits_large[OF a(2)] dl ds b)
  qed
qed

lemma zipFileName_shape:
  assumes "valid_clock t" and "year t < 10000"
  shows "zipFileName t =
     ''backup_'' @
     [digit (year t div 1000), digit (year t div 100 mod 10), digit (year t div 10 mod 10), digit (year t mod 10),
      digit (month t div 10), digit (month t mod 10), digit (day t div 10), digit (day t mod 10),
      CHR ''_'',
      digit (hour t div 10), digit (hour t mod 10), digit (minute t div 10), digit (minute t mod 10),
      digit (second t div 10), digit (second t mod 10)] @ ''.zip''"
proof -
  from assms(1) have "month t < 100" "day t < 100" "hour t < 100" "minute t < 100" "second t < 100"
    by (simp_all add: valid_clock_def)
  then show ?thesis
    by (simp add: zipFileName_def Format_def appendInt_two_digits appendInt_four_digits[OF assms(2)])
qed

lemma Join_inj: "(Join d a = Join d b) = (a = b)"
  by (simp add: Join_def)

lemma keys_put_file: "fst ` set (put_file p b fs) = insert p (fst ` set fs)"
  by (auto simp: put_file_def)

lemma one_put_file: "length (filter (\<lambda>kv. fst kv = p) (put_file p b fs)) = 1"
  by (simp add: put_file_def)

lemma zipFileName_nanosecond: "zipFileName (t\<lparr>nanosecond := n\<rparr>) = zipFileName t"
  by (simp add: zipFileName_def Format_def)

section \<open>Paths and entry names\<close>

lemma slash_split:
  "CHR ''/'' \<notin> set a \<Longrightarrow> CHR ''/'' \<notin> set b \<Longrightarrow> a @ CHR ''/'' # u = b @ CHR ''/'' # v \<Longrightarrow> a = b \<and> u = v"
proof (induction a arbitrary: b)
  case Nil
  then show ?case by (cases b) auto
next
  case (Cons x a)
  then show ?case by (cases b) auto
qed

lemma slashed_inj:
  "xs \<noteq> [] \<Longrightarrow> ys \<noteq> [] \<Longrightarrow> list_all (\<lambda>x. CHR ''/'' \<notin> set x) xs \<Longrightarrow>
   list_all (\<lambda>y. CHR ''/'' \<notin> set y) ys \<Longrightarrow> slashed xs = slashed ys \<Longrightarrow> xs = ys"
proof (induction xs arbitrary: ys rule: slashed.induct)
  case 1
  then show ?case by simp
next
  case (2 n)
  show ?case
  proof (cases ys rule: slashed.cases)
    case 1
    with 2 show ?thesis by simp
  next
    case (2 m)
    with "2.prems" show ?thesis by simp
  next
    case (3 m m' ms)
    with "2.prems" have "n = m @ CHR ''/'' # slashed (m' # ms)" by simp
    with "2.prems"(3) show ?thesis by auto
  qed
next
  case (3 n n' ns)
  show ?case
  proof (cases ys rule: slashed.cases)
    case 1
    with 3 show ?thesis by simp
  next
    case (2 m)
    with "3.prems" have "m = n @ CHR ''/'' # slashed (n' # ns)" by simp
    with "3.prems"(4) 2 show ?thesis by auto
  next
    case c: (3 m m' ms)
    with "3.prems" have e: "n @ CHR ''/'' # slashed (n' # ns) = m @ CHR ''/'' # slashed (m' # ms)"
      by simp
    from "3.prems"(3) have sn: "CHR ''/'' \<notin> set n" by simp
    from "3.prems"(4) c have sm: "CHR ''/'' \<notin> set m" by simp
    from slash_split[OF sn sm e] have nm: "n = m" and r: "slashed (n' # ns) = slashed (m' # ms)"
      by simp_all
    from "3.prems"(3,4) c have "n' # ns = m' # ms"
      by (intro "3.IH"[OF _ _ _ _ r]) simp_all
    with nm c show ?thesis by simp
  qed
qed

lemma regular_files_slash_free:
  "names_ok t \<Longrightarrow> list_all (\<lambda>f. list_all (\<lambda>x. CHR ''/'' \<notin> set x) (fst f)) (regular_files t)"
  "names_ok_names cs \<Longrightarrow> list_all (\<lambda>f. list_all (\<lambda>x. CHR ''/'' \<notin> set x) (fst f)) (regular_files_names cs)"
  by (induction t and cs rule: regular_files_regular_files_names.induct)
     (auto simp: list_all_iff)

lemma regular_files_names_head:
  "f \<in> set (regular_files_names cs) \<Longrightarrow> fst f \<noteq> [] \<and> hd (fst f) \<in> fst ` set cs"
  by (induction cs) auto

lemma regular_files_distinct:
  "names_ok t \<Longrightarrow> distinct (map fst (regular_files t))"
  "names_ok_names cs \<Longrightarrow> distinct (map fst cs) \<Longrightarrow> distinct (map fst (regular_files_names cs))"
proof (induction t and cs rule: regular_files_regular_files_names.induct)
  case (5 c cs)
  from 5 have d1: "distinct (map fst (regular_files (snd c)))" by simp
  from 5 have d2: "distinct (map fst (regular_files_names cs))" by simp
  have inj: "distinct (map fst (map (\<lambda>f. (fst c # fst f, snd f)) (regular_files (snd c))))"
    using d1 by (simp add: distinct_map o_def inj_on_def)
  have disj: "set (map fst (map (\<lambda>f. (fst c # fst f, snd f)) (regular_files (snd c)))) \<inter>
              set (map fst (regular_files_names cs)) = {}"
  proof (rule ccontr)
    assume "\<not> ?thesis"
    then obtain q where q1: "q \<in> set (map fst (map (\<lambda>f. (fst c # fst f, snd f)) (regular_files (snd c))))"
      and q2: "q \<in> set (map fst (regular_files_names cs))" by blast
    from q1 have "hd q = fst c" by auto
    moreover from q2 regular_files_names_head have "hd q \<in> fst ` set cs" by fastforce
    ultimately show False using 5(4) by auto
  qed
  from inj d2 disj show ?case by simp
qed simp_all

lemma entry_names_distinct:
  assumes "names_ok t"
  shows "distinct (map (\<lambda>f. Rel (fst f)) (regular_files t))"
proof (cases t)
  case (File d ops)
  then show ?thesis by simp
next
  case (NoStat e)
  then show ?thesis by simp
next
  case (Dir rd cs)
  have ne: "f \<in> set (regular_files t) \<Longrightarrow> fst f \<noteq> []" for f
    using regular_files_names_head[of f cs] Dir by simp
  have sf: "f \<in> set (regular_files t) \<Longrightarrow> list_all (\<lambda>x. CHR ''/'' \<notin> set x) (fst f)" for f
    using regular_files_slash_free(1)[OF assms] by (simp add: list_all_iff)
  have "inj_on Rel (set (map fst (regular_files t)))"
  proof (rule inj_onI)
    fix p q assume p: "p \<in> set (map fst (regular_files t))" and q: "q \<in> set (map fst (regular_files t))"
      and e: "Rel p = Rel q"
    from p ne sf have p': "p \<noteq> []" "list_all (\<lambda>x. CHR ''/'' \<notin> set x) p" by auto
    from q ne sf have q': "q \<noteq> []" "list_all (\<lambda>x. CHR ''/'' \<notin> set x) q" by auto
    from e p'(1) q'(1) have "slashed p = slashed q" by (simp add: Rel_def)
    from slashed_inj[OF p'(1) q'(1) p'(2) q'(2) this] show "p = q" .
  qed
  with regular_files_distinct(1)[OF assms]
  have "distinct (map Rel (map fst (regular_files t)))"
    using distinct_map[of Rel "map fst (regular_files t)"] by blast
  then show ?thesis by (simp add: o_def)
qed

section \<open>The deleting walk\<close>

lemma delete_list_append:
  "delete_list wd (xs @ ys) s =
     (case delete_list wd xs s of (Some e, s1) \<Rightarrow> (Some e, s1) | (None, s1) \<Rightarrow> delete_list wd ys s1)"
  by (induction xs arbitrary: s) (auto split: option.splits)

lemma delete_healthy:
  "healthy t \<Longrightarrow>
     run_visits (deleteFn wd) (visits p t) s =
       delete_list wd (map (\<lambda>f. (p @ fst f, snd f)) (regular_files t)) s"
  "healthy_names cs \<Longrightarrow>
     run_visits (deleteFn wd) (visits_names p cs) s =
       delete_list wd (map (\<lambda>f. (p @ fst f, snd f)) (regular_files_names cs)) s"
proof (induction p t and p cs arbitrary: s and s rule: visits_visits_names.induct)
  case (1 path d ops)
  then show ?case by (simp add: deleteFn_def split: option.splits)
next
  case (4 path cs)
  then show ?case by (simp add: deleteFn_def)
next
  case (6 path c cs)
  then show ?case
    by (simp add: run_visits_append delete_list_append o_def split: prod.splits option.splits)
qed simp_all

lemma Walk_delete_healthy:
  "healthy t \<Longrightarrow> Walk (deleteFn wd) t [] = delete_list wd (regular_files t) []"
  using delete_healthy(1)[of t wd "[]" "[]"] by (simp add: Walk_def walk_run_visits)

lemma removed_append: "removed (xs @ ys) = removed xs @ removed ys"
  by (induction xs rule: removed.induct) simp_all

lemma delete_list_all:
  "list_all removable fs \<Longrightarrow>
     \<exists>es. delete_list wd fs s = (None, s @ es) \<and> removed es = map (\<lambda>g. walk_path wd (fst g)) fs"
proof (induction fs arbitrary: s)
  case Nil
  then show ?case by simp
next
  case (Cons f fs)
  let ?s1 = "s @ [OsRemove (walk_path wd (fst f)), Log (''Deleted: '' @ walk_path wd (fst f))]"
  from Cons.prems have rm: "removable f" and rest: "list_all removable fs"
    by simp_all
  from rm have rf: "remove_err (snd (snd f)) = None" by (simp add: removable_def)
  from Cons.IH[OF rest, of ?s1] obtain es where
    e: "delete_list wd fs ?s1 = (None, ?s1 @ es)" "removed es = map (\<lambda>g. walk_path wd (fst g)) fs"
    by blast
  have "delete_list wd (f # fs) s =
          (None, s @ ([OsRemove (walk_path wd (fst f)), Log (''Deleted: '' @ walk_path wd (fst f))] @ es))"
    using rf e(1) by simp
  moreover have "removed ([OsRemove (walk_path wd (fst f)), Log (''Deleted: '' @ walk_path wd (fst f))] @ es) =
          map (\<lambda>g. walk_path wd (fst g)) (f # fs)"
    using e(2) by simp
  ultimately show ?case by blast
qed

lemma delete_list_stops:
  assumes "list_all removable before" and "remove_err (snd (snd f)) = Some e"
  shows "\<exists>es. delete_list wd (before @ f # after) s = (Some e, s @ es)
              \<and> removed es = map (\<lambda>g. walk_path wd (fst g)) before"
proof -
  from delete_list_all[OF assms(1), of wd s] obtain es where
    e: "delete_list wd before s = (None, s @ es)" "removed es = map (\<lambda>g. walk_path wd (fst g)) before"
    by blast
  have "delete_list wd (before @ f # after) s = (Some e, s @ es)"
    using e(1) assms(2) by (simp add: delete_list_append)
  with e(2) show ?thesis by blast
qed

lemma removed_added: "removed (map (added_line wd) fs) = []"
  by (induction fs) (simp_all add: added_line_def)

lemma zipAndMove_keeps_dir:
  "backup_dir (emit e w) = backup_dir w"
  by (simp add: emit_def)

section \<open>The argument resolver\<close>

text \<open>
  C7. \<^verbatim>\<open>os.Args\<close> starts with the program name, so it is not empty. Under that
  precondition \<^verbatim>\<open>getFoldersFromArgs\<close> returns the two paths with a nil error exactly when
  there are two positional arguments (three elements), and then they are \<^verbatim>\<open>os.Args[1]\<close>
  and \<^verbatim>\<open>os.Args[2]\<close>; with any other count it returns the usage error and two empty
  strings. The result is computed from the arguments alone: the state of the file system
  is neither read nor changed. In \<^verbatim>\<open>main\<close> the usage error is fatal: the process exits
  with code 1 after logging it, and nothing else has happened (no directory made, no watch
  installed, no message received).
\<close>

theorem getFoldersFromArgs_two_positional:
  assumes "Args se \<noteq> []"
  shows "((\<exists>a b. fst (getFoldersFromArgs (Args se) w) = Some (a, b, None)) \<longleftrightarrow> length (Args se) = 3)
       \<and> (length (Args se) = 3 \<longrightarrow>
            getFoldersFromArgs (Args se) w =
              (Some (Args se ! 1, Args se ! 2, None), w\<lparr>pkg_watchFolder := Args se ! 1\<rparr>))
       \<and> (length (Args se) \<noteq> 3 \<longrightarrow>
            getFoldersFromArgs (Args se) w =
              (Some ([], [], Some (''usage: '' @ hd (Args se) @ '' <watchFolder> <backupFolder>'')), w))
       \<and> (length (Args se) \<noteq> 3 \<and> logfile_err se = None \<longrightarrow>
            main del se msgs w =
              (Exited 1, emit (Log (''usage: '' @ hd (Args se) @ '' <watchFolder> <backupFolder>''))
                           (emit (Log ''Starting folder monitor...'') w)))"
  using assms
  by (cases "Args se") (auto simp: getFoldersFromArgs_def main_def)

theorem getFoldersFromArgs_two_positional_witness:
  "Args (ex_start [''foldermon'', ''in'', ''out'']) \<noteq> []
   \<and> getFoldersFromArgs [''foldermon'', ''in'', ''out''] ex_world =
       (Some (''in'', ''out'', None), ex_world\<lparr>pkg_watchFolder := ''in''\<rparr>)
   \<and> Args (ex_start [''foldermon'', ''in'']) \<noteq> []
   \<and> getFoldersFromArgs [''foldermon'', ''in''] ex_world =
       (Some ([], [], Some ''usage: foldermon <watchFolder> <backupFolder>''), ex_world)
   \<and> main deleteAfterZip (ex_start [''foldermon'', ''in'']) [EventsClosed] ex_world =
       (Exited 1, emit (Log ''usage: foldermon <watchFolder> <backupFolder>'')
                    (emit (Log ''Starting folder monitor...'') ex_world))"
  using getFoldersFromArgs_two_positional
          [where se = "ex_start [''foldermon'', ''in'', ''out'']" and w = ex_world]
        getFoldersFromArgs_two_positional
          [where se = "ex_start [''foldermon'', ''in'']" and w = ex_world
             and del = deleteAfterZip and msgs = "[EventsClosed]"]
  by (simp add: ex_start_def)

section \<open>A failure during the archiving walk\<close>




section \<open>The deferred closes\<close>

text \<open>
  C10. On a run whose creation, walk and rename succeed, \<^verbatim>\<open>zipAndMove\<close> returns nil whatever
  the two closes do: the result is nil for every outcome of \<^verbatim>\<open>zipWriter.Close()\<close> and
  \<^verbatim>\<open>zipFile.Close()\<close>, whose errors are dropped. Both closes are the last two effects of
  the run, after the rename (and after everything that follows the rename); before the
  rename there are only the creation, the print of the path and the lines of the files
  added. The archive on disk is closed by the writer only if that close succeeded, so a
  failure to finalize it leaves an unfinished file behind a nil result.
\<close>

theorem zipAndMove_returns_before_close:
  assumes "healthy (tree env)" and "backup_dir w" and "create_err env = None"
    and "rename_err env = None"
  shows "fst (zipAndMove del wd bd env w) = None
       \<and> (\<forall>zc fc. fst (zipAndMove del wd bd (env\<lparr>zipclose_err := zc, fileclose_err := fc\<rparr>) w) = None)
       \<and> map_of (files (snd (zipAndMove del wd bd env w))) (Join bd (zipFileName (now env))) =
            Some \<lparr>entries = map entry_of (regular_files (tree env)),
                  writer_closed = (zipclose_err env = None)\<rparr>
       \<and> (\<exists>post. news w (snd (zipAndMove del wd bd env w)) =
              ([OsCreate (Join bd (zipFileName (now env))),
                Stdout (''Zip file path: '' @ Join bd (zipFileName (now env)))] @
               map (added_line wd) (regular_files (tree env))) @
              [OsRename (Join bd (zipFileName (now env))) (Join bd (zipFileName (now env)))] @
              post @
              [ZipWriterClose (zipclose_err env), FileClose (fileclose_err env)])"
proof -
  let ?p = "Join bd (zipFileName (now env))"
  note wk = Walk_archive_healthy[OF assms(1), of wd]
  note r = zipAndMove_succeeds[OF assms(3) assms(2) wk assms(4) refl, of del bd]
  have a: "fst (zipAndMove del wd bd env w) = None" by (simp add: r)
  have b: "fst (zipAndMove del wd bd (env\<lparr>zipclose_err := zc, fileclose_err := fc\<rparr>) w) = None" for zc fc
  proof -
    let ?e = "env\<lparr>zipclose_err := zc, fileclose_err := fc\<rparr>"
    have 1: "create_err ?e = None" and 2: "rename_err ?e = None"
      using assms by simp_all
    have 3: "Walk (archiveFn wd) (tree ?e) ([], []) =
               (None, (map entry_of (regular_files (tree env)), map (added_line wd) (regular_files (tree env))))"
      using wk by simp
    show ?thesis using zipAndMove_succeeds[OF 1 assms(2) 3 2 refl, of del bd] by simp
  qed
  have c: "map_of (files (snd (zipAndMove del wd bd env w))) ?p =
            Some \<lparr>entries = map entry_of (regular_files (tree env)),
                  writer_closed = (zipclose_err env = None)\<rparr>"
    by (simp add: r map_of_put_file)
  have d: "news w (snd (zipAndMove del wd bd env w)) =
              ([OsCreate ?p, Stdout (''Zip file path: '' @ ?p)] @
               map (added_line wd) (regular_files (tree env))) @
              [OsRename ?p ?p] @
              (Log (''Moved zip to: '' @ ?p) #
                 (if del then
                    (case Walk (deleteFn wd) (tree env) [] of
                       (Some err, dl) \<Rightarrow> dl @ [Log (''Error deleting files: '' @ err)]
                     | (None, dl) \<Rightarrow> dl)
                  else [])) @
              [ZipWriterClose (zipclose_err env), FileClose (fileclose_err env)]"
    by (rule news_append) (simp add: r)
  from a b c d show ?thesis by blast
qed

theorem zipAndMove_returns_before_close_witness:
  "healthy (tree ((ex_env ex_tree ex_clock)\<lparr>zipclose_err := Some ''write out/backup_20250309_070500.zip: no space left on device''\<rparr>))
   \<and> backup_dir ex_world
   \<and> create_err ((ex_env ex_tree ex_clock)\<lparr>zipclose_err := Some ''write out/backup_20250309_070500.zip: no space left on device''\<rparr>) = None
   \<and> rename_err ((ex_env ex_tree ex_clock)\<lparr>zipclose_err := Some ''write out/backup_20250309_070500.zip: no space left on device''\<rparr>) = None
   \<and> fst (zipAndMove False ''in'' ''out''
        ((ex_env ex_tree ex_clock)\<lparr>zipclose_err := Some ''write out/backup_20250309_070500.zip: no space left on device''\<rparr>) ex_world) = None
   \<and> map_of (files (snd (zipAndMove False ''in'' ''out''
        ((ex_env ex_tree ex_clock)\<lparr>zipclose_err := Some ''write out/backup_20250309_070500.zip: no space left on device''\<rparr>) ex_world)))
        ''out/backup_20250309_070500.zip'' =
      Some \<lparr>entries = [(''a.txt'', ''hello''), (''sub/b.txt'', ''world'')], writer_closed = False\<rparr>"
proof -
  let ?e = "(ex_env ex_tree ex_clock)\<lparr>zipclose_err := Some ''write out/backup_20250309_070500.zip: no space left on device''\<rparr>"
  have h: "healthy (tree ?e)" by code_simp
  have b: "backup_dir ex_world" by code_simp
  have c: "create_err ?e = None" by code_simp
  have r: "rename_err ?e = None" by code_simp
  have n: "Join ''out'' (zipFileName (now ?e)) = ''out/backup_20250309_070500.zip''" by code_simp
  have f: "map entry_of (regular_files (tree ?e)) = [(''a.txt'', ''hello''), (''sub/b.txt'', ''world'')]"
    by code_simp
  have z: "(zipclose_err ?e = None) = False" by code_simp
  from zipAndMove_returns_before_close[OF h b c r, of False "''in''" "''out''"] h b c r
  show ?thesis unfolding n f z by blast
qed

section \<open>An error of the archive-and-move sequence ends the process\<close>

text \<open>
  C3. For an event with the creation flag, \<^verbatim>\<open>zipAndMove\<close> returns an error exactly when the
  creation of the bundle file fails (reported by \<^verbatim>\<open>os.Create\<close> or because the backup
  directory is missing), some call of the walk fails, or the rename fails. Whenever it
  returns an error, that error was logged by \<^verbatim>\<open>zipAndMove\<close> under one of its three
  messages, \<^verbatim>\<open>main\<close> prints it and the process exits with code 1: the messages that follow
  in the channels are never received.
\<close>

theorem archive_error_exits:
  assumes "Op ev AND Create = Create"
  shows "(fst (zipAndMove del wd bd env
                (emit (Sleep 1000000000) (emit (Log (''Detected new file: '' @ Name ev)) w))) \<noteq> None
            \<longleftrightarrow> (create_err env \<noteq> None \<or> \<not> backup_dir w \<or> \<not> healthy (tree env) \<or> rename_err env \<noteq> None))
       \<and> (\<forall>e w3.
             zipAndMove del wd bd env
               (emit (Sleep 1000000000) (emit (Log (''Detected new file: '' @ Name ev)) w)) = (Some e, w3)
             \<longrightarrow> monitor del wd bd (Event ev env # ms) w =
                   (Exited 1, emit (Stdout (''Error during zip and move: '' @ e)) w3)
               \<and> (Log (''Failed to create zip: '' @ e) \<in> set (news w w3)
                  \<or> Log (''Error creating zip archive: '' @ e) \<in> set (news w w3)
                  \<or> Log (''Failed to move zip file: '' @ e) \<in> set (news w w3)))"
proof -
  let ?w2 = "emit (Sleep 1000000000) (emit (Log (''Detected new file: '' @ Name ev)) w)"
  let ?p = "Join bd (zipFileName (now env))"
  let ?L = "\<lambda>e w3. Log (''Failed to create zip: '' @ e) \<in> set (news w w3)
                  \<or> Log (''Error creating zip archive: '' @ e) \<in> set (news w w3)
                  \<or> Log (''Failed to move zip file: '' @ e) \<in> set (news w w3)"
  have bd2: "backup_dir ?w2 = backup_dir w" by (simp add: emit_def)
  have o2: "out ?w2 = out w @ [Log (''Detected new file: '' @ Name ev), Sleep 1000000000]"
    by (simp add: emit_def)
  have main: "(fst (zipAndMove del wd bd env ?w2) \<noteq> None
            \<longleftrightarrow> (create_err env \<noteq> None \<or> \<not> backup_dir w \<or> \<not> healthy (tree env) \<or> rename_err env \<noteq> None))
        \<and> (\<forall>e w3. zipAndMove del wd bd env ?w2 = (Some e, w3) \<longrightarrow> ?L e w3)"
  proof (cases "create_err env")
    case (Some e)
    show ?thesis
      unfolding zipAndMove_create_fails[OF Some] using Some by (auto simp: news_def emit_def)
  next
    case None
    show ?thesis
    proof (cases "backup_dir w")
      case False
      with bd2 have nb: "\<not> backup_dir ?w2" by simp
      show ?thesis
        unfolding zipAndMove_no_directory[OF None nb] using False by (auto simp: news_def emit_def)
    next
      case True
      with bd2 have b: "backup_dir ?w2" by simp
      show ?thesis
      proof (cases "healthy (tree env)")
        case False
        obtain e zs fs where wk: "Walk (archiveFn wd) (tree env) ([], []) = (Some e, (zs, map (added_line wd) fs))"
          using Walk_archive_unhealthy[OF False] by blast
        show ?thesis
          unfolding zipAndMove_walk_fails[OF None b wk refl] using False by (auto simp: news_def emit_def)
      next
        case h: True
        note wk = Walk_archive_healthy[OF h, of wd]
        show ?thesis
        proof (cases "rename_err env")
          case (Some e)
          show ?thesis
            unfolding zipAndMove_rename_fails[OF None b wk Some refl] using Some by (auto simp: news_def emit_def)
        next
          case N: None
          show ?thesis
            unfolding zipAndMove_succeeds[OF None b wk N refl] using None True h N by auto
        qed
      qed
    qed
  qed
  show ?thesis
    using main by (auto simp del: monitor.simps simp add: monitor_create_step[OF assms])
qed

theorem archive_error_exits_witness:
  "Op (ex_event Create) AND Create = Create
   \<and> monitor False ''in'' ''out''
        [Event (ex_event Create) (ex_env ex_bad_tree ex_clock), WatcherError ''overflow''] ex_world =
       (Exited 1,
        emit (Stdout ''Error during zip and move: read in/b.txt: input/output error'')
          (snd (zipAndMove False ''in'' ''out'' (ex_env ex_bad_tree ex_clock)
                  (emit (Sleep 1000000000)
                     (emit (Log (''Detected new file: '' @ Name (ex_event Create))) ex_world)))))"
proof -
  let ?w2 = "emit (Sleep 1000000000) (emit (Log (''Detected new file: '' @ Name (ex_event Create))) ex_world)"
  have c: "Op (ex_event Create) AND Create = Create" by (simp add: ex_event_def)
  have "fst (zipAndMove False ''in'' ''out'' (ex_env ex_bad_tree ex_clock) ?w2) =
          Some ''read in/b.txt: input/output error''"
    by code_simp
  then obtain w3 where z: "zipAndMove False ''in'' ''out'' (ex_env ex_bad_tree ex_clock) ?w2 =
          (Some ''read in/b.txt: input/output error'', w3)"
    by (metis prod.collapse)
  from archive_error_exits[OF c, of False "''in''" "''out''" "ex_env ex_bad_tree ex_clock" ex_world
      "[WatcherError ''overflow'']"] z
  have "monitor False ''in'' ''out''
        [Event (ex_event Create) (ex_env ex_bad_tree ex_clock), WatcherError ''overflow''] ex_world =
       (Exited 1, emit (Stdout (''Error during zip and move: '' @ ''read in/b.txt: input/output error'')) w3)"
    by blast
  with c z show ?thesis by (simp del: monitor.simps)
qed

section \<open>Only creation events trigger a run\<close>

text \<open>
  C4. An event that carries the creation flag makes the loop log the detection, sleep for
  one second (\<open>1000000000\<close> nanoseconds) and only then run \<^verbatim>\<open>zipAndMove\<close>: everything the
  run does, starting with its attempt to create the bundle file, comes after the sleep. An
  event without the flag changes nothing and the loop goes on to the next receive; this is
  the case of every event whose flags are among write, remove, rename and chmod.
\<close>

theorem monitor_acts_on_create_only:
  "(Op ev AND Create = Create \<longrightarrow>
      (\<exists>zs. news w (snd (monitor del wd bd [Event ev env] w)) =
               [Log (''Detected new file: '' @ Name ev), Sleep 1000000000] @ zs
          \<and> zs = news (emit (Sleep 1000000000) (emit (Log (''Detected new file: '' @ Name ev)) w))
                     (snd (zipAndMove del wd bd env
                        (emit (Sleep 1000000000) (emit (Log (''Detected new file: '' @ Name ev)) w))))
                 @ (case fst (zipAndMove del wd bd env
                        (emit (Sleep 1000000000) (emit (Log (''Detected new file: '' @ Name ev)) w))) of
                      Some e \<Rightarrow> [Stdout (''Error during zip and move: '' @ e)] | None \<Rightarrow> [])
          \<and> ((\<exists>e rest. zs = Log (''Failed to create zip: '' @ e) # rest)
             \<or> (\<exists>rest. zs = OsCreate (Join bd (zipFileName (now env))) # rest))))
   \<and> (Op ev AND Create \<noteq> Create \<longrightarrow>
        monitor del wd bd [Event ev env] w = (Running, w)
      \<and> monitor del wd bd (Event ev env # ms) w = monitor del wd bd ms w)
   \<and> (Op ev AND NOT (Write OR Remove OR Rename OR Chmod) = 0 \<longrightarrow> Op ev AND Create \<noteq> Create)"
proof -
  let ?w2 = "emit (Sleep 1000000000) (emit (Log (''Detected new file: '' @ Name ev)) w)"
  have o2: "out ?w2 = out w @ [Log (''Detected new file: '' @ Name ev), Sleep 1000000000]"
    by (simp add: emit_def)
  obtain r w3 where z: "zipAndMove del wd bd env ?w2 = (r, w3)" by (metis prod.exhaust)
  obtain zs where o3: "out w3 = out ?w2 @ zs"
    and first: "(\<exists>e. zs = [Log (''Failed to create zip: '' @ e)])
         \<or> (\<exists>rest. zs = OsCreate (Join bd (zipFileName (now env))) # rest)"
    using zipAndMove_first_action[of del wd bd env ?w2] z by auto
  have n23: "news ?w2 w3 = zs" using o3 by (simp add: news_def)
  have a: "Op ev AND Create = Create \<Longrightarrow>
      news w (snd (monitor del wd bd [Event ev env] w)) =
        [Log (''Detected new file: '' @ Name ev), Sleep 1000000000] @
        (zs @ (case r of Some e \<Rightarrow> [Stdout (''Error during zip and move: '' @ e)] | None \<Rightarrow> []))"
  proof -
    assume cr: "Op ev AND Create = Create"
    have m: "monitor del wd bd [Event ev env] w =
        (case r of Some e \<Rightarrow> (Exited 1, emit (Stdout (''Error during zip and move: '' @ e)) w3)
                 | None \<Rightarrow> (Running, w3))"
      unfolding monitor_create_step[OF cr] z by (cases r) simp_all
    show ?thesis
      unfolding m using o3 o2 by (cases r) (simp_all add: news_def emit_def)
  qed
  have b: "(\<exists>e rest. zs @ (case r of Some e \<Rightarrow> [Stdout (''Error during zip and move: '' @ e)] | None \<Rightarrow> [])
                = Log (''Failed to create zip: '' @ e) # rest)
         \<or> (\<exists>rest. zs @ (case r of Some e \<Rightarrow> [Stdout (''Error during zip and move: '' @ e)] | None \<Rightarrow> [])
                = OsCreate (Join bd (zipFileName (now env))) # rest)"
    using first by auto
  have c: "Op ev AND Create \<noteq> Create \<Longrightarrow>
        monitor del wd bd [Event ev env] w = (Running, w)
      \<and> monitor del wd bd (Event ev env # ms) w = monitor del wd bd ms w"
    by simp
  show ?thesis
    using a b c other_flags_not_create[of "Op ev"] unfolding z n23 fst_conv snd_conv
    by blast
qed

theorem monitor_acts_on_create_only_witness:
  "Op (ex_event Create) AND Create = Create
   \<and> news ex_world (snd (monitor False ''in'' ''out'' [Event (ex_event Create) (ex_env ex_tree ex_clock)] ex_world)) =
       [Log ''Detected new file: in/new.txt'', Sleep 1000000000,
        OsCreate ''out/backup_20250309_070500.zip'',
        Stdout ''Zip file path: out/backup_20250309_070500.zip'',
        Log ''Added to zip: in/a.txt'', Log ''Added to zip: in/sub/b.txt'',
        OsRename ''out/backup_20250309_070500.zip'' ''out/backup_20250309_070500.zip'',
        Log ''Moved zip to: out/backup_20250309_070500.zip'',
        ZipWriterClose None, FileClose None]
   \<and> Op (ex_event (Write OR Chmod)) AND Create \<noteq> Create
   \<and> Op (ex_event (Write OR Chmod)) AND NOT (Write OR Remove OR Rename OR Chmod) = 0
   \<and> monitor False ''in'' ''out'' [Event (ex_event (Write OR Chmod)) (ex_env ex_tree ex_clock)] ex_world =
       (Running, ex_world)"
proof -
  have c: "Op (ex_event Create) AND Create = Create" by (simp add: ex_event_def)
  have m: "Op (ex_event (Write OR Chmod)) AND NOT (Write OR Remove OR Rename OR Chmod) = 0"
    by (simp add: ex_event_def Write_def Remove_def Rename_def Chmod_def)
  note t1 = monitor_acts_on_create_only[of "ex_event Create" ex_world False "''in''" "''out''"
      "ex_env ex_tree ex_clock" "[]"]
  note t2 = monitor_acts_on_create_only[of "ex_event (Write OR Chmod)" ex_world False "''in''" "''out''"
      "ex_env ex_tree ex_clock" "[]"]
  from t2 m have n: "Op (ex_event (Write OR Chmod)) AND Create \<noteq> Create" by blast
  with t2 have r: "monitor False ''in'' ''out'' [Event (ex_event (Write OR Chmod)) (ex_env ex_tree ex_clock)] ex_world =
       (Running, ex_world)" by blast
  from t1 c obtain zs where
    z: "news ex_world (snd (monitor False ''in'' ''out'' [Event (ex_event Create) (ex_env ex_tree ex_clock)] ex_world)) =
          [Log (''Detected new file: '' @ Name (ex_event Create)), Sleep 1000000000] @ zs"
    by blast
  have e: "news ex_world (snd (monitor False ''in'' ''out'' [Event (ex_event Create) (ex_env ex_tree ex_clock)] ex_world)) =
       [Log ''Detected new file: in/new.txt'', Sleep 1000000000,
        OsCreate ''out/backup_20250309_070500.zip'',
        Stdout ''Zip file path: out/backup_20250309_070500.zip'',
        Log ''Added to zip: in/a.txt'', Log ''Added to zip: in/sub/b.txt'',
        OsRename ''out/backup_20250309_070500.zip'' ''out/backup_20250309_070500.zip'',
        Log ''Moved zip to: out/backup_20250309_070500.zip'',
        ZipWriterClose None, FileClose None]"
    by code_simp
  from c e n m r z show ?thesis by blast
qed

section \<open>Errors of the watcher\<close>

text \<open>
  C8. An error received from the watcher's error channel is logged and the loop goes on
  with the next receive; after any sequence of watcher errors (and events without the
  creation flag) the process is still in the loop, with one line logged per error. The loop
  returns when either channel is closed, and it returns only then: the one other way the
  process leaves the loop is the exit with code 1 after a failed run, which takes an event
  with the creation flag.
\<close>

theorem watcher_error_keeps_loop:
  "monitor del wd bd (WatcherError e # ms) w = monitor del wd bd ms (emit (Log (''Watcher error: '' @ e)) w)
   \<and> monitor del wd bd [WatcherError e] w = (Running, emit (Log (''Watcher error: '' @ e)) w)
   \<and> (list_all quiet pre \<longrightarrow>
        monitor del wd bd pre w = (Running, w\<lparr>out := out w @ watcher_lines pre\<rparr>))
   \<and> monitor del wd bd (EventsClosed # ms) w = (Returned, w)
   \<and> monitor del wd bd (ErrorsClosed # ms) w = (Returned, w)
   \<and> (fst (monitor del wd bd ms w) = Returned \<longrightarrow> EventsClosed \<in> set ms \<or> ErrorsClosed \<in> set ms)
   \<and> (fst (monitor del wd bd ms w) \<noteq> Running \<and> fst (monitor del wd bd ms w) \<noteq> Returned \<longrightarrow>
        fst (monitor del wd bd ms w) = Exited 1
        \<and> (\<exists>ev env. Event ev env \<in> set ms \<and> Op ev AND Create = Create))"
proof -
  have q: "list_all quiet pre \<Longrightarrow>
        monitor del wd bd pre w = (Running, w\<lparr>out := out w @ watcher_lines pre\<rparr>)"
    using monitor_quiet_prefix[of pre del wd bd "[]" w] by simp
  have r: "fst (monitor del wd bd ms w) = Returned \<Longrightarrow> EventsClosed \<in> set ms \<or> ErrorsClosed \<in> set ms"
    using monitor_stops[of del wd bd ms w] by auto
  have x: "fst (monitor del wd bd ms w) \<noteq> Running \<and> fst (monitor del wd bd ms w) \<noteq> Returned \<Longrightarrow>
        fst (monitor del wd bd ms w) = Exited 1
        \<and> (\<exists>ev env. Event ev env \<in> set ms \<and> Op ev AND Create = Create)"
    using monitor_stops[of del wd bd ms w] by auto
  show ?thesis using q r x by simp
qed

theorem watcher_error_keeps_loop_witness:
  "list_all quiet [WatcherError ''queue overflow'', Event (ex_event Write) (ex_env ex_tree ex_clock),
                   WatcherError ''read: bad file descriptor'']
   \<and> monitor False ''in'' ''out''
        [WatcherError ''queue overflow'', Event (ex_event Write) (ex_env ex_tree ex_clock),
         WatcherError ''read: bad file descriptor''] ex_world =
       (Running, ex_world\<lparr>out := [Log ''Watcher error: queue overflow'',
                                   Log ''Watcher error: read: bad file descriptor'']\<rparr>)
   \<and> monitor False ''in'' ''out'' [WatcherError ''queue overflow'', ErrorsClosed] ex_world =
       (Returned, emit (Log ''Watcher error: queue overflow'') ex_world)"
proof -
  let ?pre = "[WatcherError ''queue overflow'', Event (ex_event Write) (ex_env ex_tree ex_clock),
               WatcherError ''read: bad file descriptor'']"
  have q: "list_all quiet ?pre"
    by (simp add: ex_event_def Write_def Create_def)
  note t = watcher_error_keeps_loop[of False "''in''" "''out''" "''queue overflow''" "[ErrorsClosed]"
      ex_world ?pre]
  note u = watcher_error_keeps_loop[of False "''in''" "''out''" "''queue overflow''" "[]"
      "emit (Log ''Watcher error: queue overflow'') ex_world" "[]"]
  from t q have a: "monitor False ''in'' ''out'' ?pre ex_world =
      (Running, ex_world\<lparr>out := out ex_world @ watcher_lines ?pre\<rparr>)" by blast
  from t have b: "monitor False ''in'' ''out'' [WatcherError ''queue overflow'', ErrorsClosed] ex_world =
      monitor False ''in'' ''out'' [ErrorsClosed] (emit (Log (''Watcher error: '' @ ''queue overflow'')) ex_world)"
    by blast
  from u have c: "monitor False ''in'' ''out'' [ErrorsClosed] (emit (Log ''Watcher error: queue overflow'') ex_world) =
      (Returned, emit (Log ''Watcher error: queue overflow'') ex_world)" by blast
  have w: "out ex_world @ watcher_lines ?pre =
      [Log ''Watcher error: queue overflow'', Log ''Watcher error: read: bad file descriptor'']"
    by (simp add: ex_world_def)
  from q a b c w show ?thesis by (simp del: monitor.simps)
qed

section \<open>A failed creation of the backup directory\<close>

text \<open>
  C9. Let the backup directory be missing and \<^verbatim>\<open>os.MkdirAll\<close> fail at start-up, with the
  arguments, the log file and the watcher in order. The error is dropped: \<^verbatim>\<open>main\<close> enters
  the monitor loop with the same output as after a successful call (the result does not
  depend on the error at all), installs the watch, and stays in the loop through watcher
  errors and events without the creation flag. At the first event with the creation flag
  the run fails to create the bundle file, logs \<^verbatim>\<open>Failed to create zip\<close> and the process
  exits with code 1; when \<^verbatim>\<open>os.Create\<close> has no failure of its own to report, the error is
  that of the missing directory.
\<close>

theorem mkdir_failure_is_silent:
  assumes "length (Args se) = 3" and "logfile_err se = None" and "watcher_err se = None"
    and "add_err se = None" and "\<not> backup_dir w" and "mkdir_err se = Some e"
  shows "main del se msgs w =
           monitor del (Args se ! 1) (Args se ! 2) msgs
             (w\<lparr>pkg_watchFolder := Args se ! 1,
                out := out w @ [Log ''Starting folder monitor...'',
                                Stdout (''Watching folder: '' @ Args se ! 1),
                                Stdout (''Backup folder: '' @ Args se ! 2),
                                OsMkdirAll (Args se ! 2), WatcherAdd (Args se ! 1)]\<rparr>)
       \<and> main del (se\<lparr>mkdir_err := Some e'\<rparr>) msgs w = main del se msgs w
       \<and> (list_all quiet pre \<longrightarrow>
            main del se pre w =
              (Running,
               w\<lparr>pkg_watchFolder := Args se ! 1,
                  out := out w @ [Log ''Starting folder monitor...'',
                                  Stdout (''Watching folder: '' @ Args se ! 1),
                                  Stdout (''Backup folder: '' @ Args se ! 2),
                                  OsMkdirAll (Args se ! 2), WatcherAdd (Args se ! 1)] @ watcher_lines pre\<rparr>))
       \<and> (list_all quiet pre \<and> Op ev AND Create = Create \<longrightarrow>
            (\<exists>e2. main del se (pre @ Event ev env # ms) w =
              (Exited 1,
               w\<lparr>pkg_watchFolder := Args se ! 1,
                  out := out w @ [Log ''Starting folder monitor...'',
                                  Stdout (''Watching folder: '' @ Args se ! 1),
                                  Stdout (''Backup folder: '' @ Args se ! 2),
                                  OsMkdirAll (Args se ! 2), WatcherAdd (Args se ! 1)] @ watcher_lines pre @
                                 [Log (''Detected new file: '' @ Name ev), Sleep 1000000000,
                                  Log (''Failed to create zip: '' @ e2),
                                  Stdout (''Error during zip and move: '' @ e2)]\<rparr>)
              \<and> (create_err env = None \<longrightarrow>
                   e2 = ''open '' @ Join (Args se ! 2) (zipFileName (now env)) @ '': no such file or directory'')))"
proof -
  let ?st = "[Log ''Starting folder monitor...'',
              Stdout (''Watching folder: '' @ Args se ! 1),
              Stdout (''Backup folder: '' @ Args se ! 2),
              OsMkdirAll (Args se ! 2), WatcherAdd (Args se ! 1)]"
  let ?w1 = "w\<lparr>pkg_watchFolder := Args se ! 1, out := out w @ ?st\<rparr>"
  have m: "main del se msgs w = monitor del (Args se ! 1) (Args se ! 2) msgs ?w1" for msgs
    using main_enters_loop[OF assms, of del msgs] by simp
  have i: "main del (se\<lparr>mkdir_err := Some e'\<rparr>) msgs w = main del se msgs w"
    using main_enters_loop[of "se\<lparr>mkdir_err := Some e'\<rparr>" w e' del msgs]
      main_enters_loop[OF assms, of del msgs] assms by simp
  have q: "list_all quiet pre \<Longrightarrow> main del se pre w =
      (Running, w\<lparr>pkg_watchFolder := Args se ! 1, out := out w @ ?st @ watcher_lines pre\<rparr>)"
    unfolding m using monitor_quiet_prefix[of pre del "Args se ! 1" "Args se ! 2" "[]" ?w1] by simp
  have x: "\<exists>e2. main del se (pre @ Event ev env # ms) w =
              (Exited 1,
               w\<lparr>pkg_watchFolder := Args se ! 1,
                  out := out w @ ?st @ watcher_lines pre @
                                 [Log (''Detected new file: '' @ Name ev), Sleep 1000000000,
                                  Log (''Failed to create zip: '' @ e2),
                                  Stdout (''Error during zip and move: '' @ e2)]\<rparr>)
              \<and> (create_err env = None \<longrightarrow>
                   e2 = ''open '' @ Join (Args se ! 2) (zipFileName (now env)) @ '': no such file or directory'')"
    if qp: "list_all quiet pre" and cr: "Op ev AND Create = Create"
  proof -
    let ?w2 = "?w1\<lparr>out := out ?w1 @ watcher_lines pre\<rparr>"
    let ?w3 = "emit (Sleep 1000000000) (emit (Log (''Detected new file: '' @ Name ev)) ?w2)"
    have nb: "\<not> backup_dir ?w3" using assms(5) by (simp add: emit_def)
    have s1: "main del se (pre @ Event ev env # ms) w =
                monitor del (Args se ! 1) (Args se ! 2) (Event ev env # ms) ?w2"
      unfolding m by (rule monitor_quiet_prefix[OF qp])
    show ?thesis
    proof (cases "create_err env")
      case None
      show ?thesis
        unfolding s1 monitor_create_step[OF cr] zipAndMove_no_directory[OF None nb]
        using None
        by (intro exI[of _ "''open '' @ Join (Args se ! 2) (zipFileName (now env)) @ '': no such file or directory''"])
           (simp add: emit_def)
    next
      case (Some e2)
      show ?thesis
        unfolding s1 monitor_create_step[OF cr] zipAndMove_create_fails[OF Some]
        using Some by (intro exI[of _ e2]) (simp add: emit_def)
    qed
  qed
  show ?thesis using m[of msgs] i q x by blast
qed

theorem mkdir_failure_is_silent_witness:
  "length (Args ((ex_start [''foldermon'', ''in'', ''out''])\<lparr>mkdir_err := Some ''mkdir out: permission denied''\<rparr>)) = 3
   \<and> logfile_err ((ex_start [''foldermon'', ''in'', ''out''])\<lparr>mkdir_err := Some ''mkdir out: permission denied''\<rparr>) = None
   \<and> watcher_err ((ex_start [''foldermon'', ''in'', ''out''])\<lparr>mkdir_err := Some ''mkdir out: permission denied''\<rparr>) = None
   \<and> add_err ((ex_start [''foldermon'', ''in'', ''out''])\<lparr>mkdir_err := Some ''mkdir out: permission denied''\<rparr>) = None
   \<and> \<not> backup_dir (ex_world\<lparr>backup_dir := False\<rparr>)
   \<and> mkdir_err ((ex_start [''foldermon'', ''in'', ''out''])\<lparr>mkdir_err := Some ''mkdir out: permission denied''\<rparr>)
       = Some ''mkdir out: permission denied''
   \<and> main False ((ex_start [''foldermon'', ''in'', ''out''])\<lparr>mkdir_err := Some ''mkdir out: permission denied''\<rparr>)
        [WatcherError ''queue overflow'', Event (ex_event Create) (ex_env ex_tree ex_clock)]
        (ex_world\<lparr>backup_dir := False\<rparr>) =
       (Exited 1,
        ex_world\<lparr>backup_dir := False, pkg_watchFolder := ''in'',
           out := [Log ''Starting folder monitor...'', Stdout ''Watching folder: in'',
                   Stdout ''Backup folder: out'', OsMkdirAll ''out'', WatcherAdd ''in'',
                   Log ''Watcher error: queue overflow'',
                   Log ''Detected new file: in/new.txt'', Sleep 1000000000,
                   Log ''Failed to create zip: open out/backup_20250309_070500.zip: no such file or directory'',
                   Stdout ''Error during zip and move: open out/backup_20250309_070500.zip: no such file or directory'']\<rparr>)"
proof -
  let ?se = "(ex_start [''foldermon'', ''in'', ''out''])\<lparr>mkdir_err := Some ''mkdir out: permission denied''\<rparr>"
  let ?w = "ex_world\<lparr>backup_dir := False\<rparr>"
  have h: "length (Args ?se) = 3" "logfile_err ?se = None" "watcher_err ?se = None"
    "add_err ?se = None" "\<not> backup_dir ?w" "mkdir_err ?se = Some ''mkdir out: permission denied''"
    by (simp_all add: ex_start_def)
  have q: "list_all quiet [WatcherError ''queue overflow'']" by simp
  have c: "Op (ex_event Create) AND Create = Create" by (simp add: ex_event_def)
  have ce: "create_err (ex_env ex_tree ex_clock) = None" by (simp add: ex_env_def)
  have n: "Join ''out'' (zipFileName (now (ex_env ex_tree ex_clock))) = ''out/backup_20250309_070500.zip''"
    by code_simp
  have a: "Args ?se ! 1 = ''in''" "Args ?se ! 2 = ''out''" by (simp_all add: ex_start_def)
  from mkdir_failure_is_silent[OF h, of False "[]" "''x''" "[WatcherError ''queue overflow'']"
      "ex_event Create" "ex_env ex_tree ex_clock" "[]"] q c ce
  obtain e2 where
    m: "main False ?se ([WatcherError ''queue overflow''] @ [Event (ex_event Create) (ex_env ex_tree ex_clock)]) ?w =
         (Exited 1,
          ?w\<lparr>pkg_watchFolder := Args ?se ! 1,
             out := out ?w @ [Log ''Starting folder monitor...'',
                              Stdout (''Watching folder: '' @ Args ?se ! 1),
                              Stdout (''Backup folder: '' @ Args ?se ! 2),
                              OsMkdirAll (Args ?se ! 2), WatcherAdd (Args ?se ! 1)] @
                             watcher_lines [WatcherError ''queue overflow''] @
                             [Log (''Detected new file: '' @ Name (ex_event Create)), Sleep 1000000000,
                              Log (''Failed to create zip: '' @ e2),
                              Stdout (''Error during zip and move: '' @ e2)]\<rparr>)"
    and e2: "e2 = ''open '' @ Join (Args ?se ! 2) (zipFileName (now (ex_env ex_tree ex_clock))) @ '': no such file or directory''"
    by blast
  have e2': "e2 = ''open out/backup_20250309_070500.zip: no such file or directory''"
    unfolding e2 a n by simp
  have "main False ?se [WatcherError ''queue overflow'', Event (ex_event Create) (ex_env ex_tree ex_clock)] ?w =
       (Exited 1,
        ex_world\<lparr>backup_dir := False, pkg_watchFolder := ''in'',
           out := [Log ''Starting folder monitor...'', Stdout ''Watching folder: in'',
                   Stdout ''Backup folder: out'', OsMkdirAll ''out'', WatcherAdd ''in'',
                   Log ''Watcher error: queue overflow'',
                   Log ''Detected new file: in/new.txt'', Sleep 1000000000,
                   Log ''Failed to create zip: open out/backup_20250309_070500.zip: no such file or directory'',
                   Stdout ''Error during zip and move: open out/backup_20250309_070500.zip: no such file or directory'']\<rparr>)"
    using m unfolding e2' a by (simp add: ex_world_def ex_event_def)
  with h show ?thesis by blast
qed

section \<open>One bundle name per second\<close>

text \<open>
  C5. The bundle of a run is the file \<^verbatim>\<open>backup_YYYYMMDD_HHMMSS.zip\<close> in the backup folder,
  named from the clock reading at the start of the run: four digits of the year (for a year
  below 10000), two each of month, day, hour, minute and second; the nanoseconds do not
  enter the name. For two successful runs, one after the other, with valid clock readings: the two
  paths are equal exactly when the readings are in the same second. In different seconds
  both bundles are present afterwards, each with the entries of its own run, and the backup
  folder has two files more. In the same second it has one file more, a single file under
  that path, holding the entries of the later run; the later run puts out exactly what it
  would have put out had the earlier bundle not been there, so nothing warns of the
  overwrite.
\<close>

theorem bundle_named_by_second:
  assumes "valid_clock (now env1)" and "valid_clock (now env2)" and "backup_dir w"
    and "create_err env1 = None" and "healthy (tree env1)" and "rename_err env1 = None"
    and "create_err env2 = None" and "healthy (tree env2)" and "rename_err env2 = None"
  shows "let p1 = Join bd (zipFileName (now env1));
             p2 = Join bd (zipFileName (now env2));
             w1 = snd (zipAndMove del wd bd env1 w);
             w2 = snd (zipAndMove del wd bd env2 w1);
             b1 = \<lparr>entries = map entry_of (regular_files (tree env1)), writer_closed = (zipclose_err env1 = None)\<rparr>;
             b2 = \<lparr>entries = map entry_of (regular_files (tree env2)), writer_closed = (zipclose_err env2 = None)\<rparr>
         in zipFileName ((now env1)\<lparr>nanosecond := n\<rparr>) = zipFileName (now env1)
          \<and> (year (now env1) < 10000 \<longrightarrow>
                zipFileName (now env1) =
                  ''backup_'' @
                  [digit (year (now env1) div 1000), digit (year (now env1) div 100 mod 10),
                   digit (year (now env1) div 10 mod 10), digit (year (now env1) mod 10),
                   digit (month (now env1) div 10), digit (month (now env1) mod 10),
                   digit (day (now env1) div 10), digit (day (now env1) mod 10),
                   CHR ''_'',
                   digit (hour (now env1) div 10), digit (hour (now env1) mod 10),
                   digit (minute (now env1) div 10), digit (minute (now env1) mod 10),
                   digit (second (now env1) div 10), digit (second (now env1) mod 10)] @ ''.zip'')
          \<and> fst (zipAndMove del wd bd env1 w) = None
          \<and> fst (zipAndMove del wd bd env2 w1) = None
          \<and> ((p1 = p2) = same_second (now env1) (now env2))
          \<and> map_of (files w1) p1 = Some b1
          \<and> map_of (files w2) p2 = Some b2
          \<and> (\<not> same_second (now env1) (now env2) \<longrightarrow>
                p1 \<noteq> p2 \<and> map_of (files w2) p1 = Some b1
              \<and> fst ` set (files w2) = fst ` set (files w) \<union> {p1, p2})
          \<and> (same_second (now env1) (now env2) \<longrightarrow>
                fst ` set (files w2) = fst ` set (files w) \<union> {p1}
              \<and> length (filter (\<lambda>kv. fst kv = p1) (files w2)) = 1)
          \<and> news w1 w2 = news w (snd (zipAndMove del wd bd env2 w))"
proof -
  let ?p1 = "Join bd (zipFileName (now env1))" and ?p2 = "Join bd (zipFileName (now env2))"
  let ?b1 = "\<lparr>entries = map entry_of (regular_files (tree env1)), writer_closed = (zipclose_err env1 = None)\<rparr>"
  let ?b2 = "\<lparr>entries = map entry_of (regular_files (tree env2)), writer_closed = (zipclose_err env2 = None)\<rparr>"
  note k1 = Walk_archive_healthy[OF assms(5), of wd]
  note k2 = Walk_archive_healthy[OF assms(8), of wd]
  note r1 = zipAndMove_succeeds[OF assms(4) assms(3) k1 assms(6) refl, of del bd]
  let ?w1 = "snd (zipAndMove del wd bd env1 w)"
  have f1: "files ?w1 = put_file ?p1 ?b1 (files w)" by (simp add: r1)
  have d1: "backup_dir ?w1" using assms(3) by (simp add: r1)
  note r2 = zipAndMove_succeeds[OF assms(7) d1 k2 assms(9) refl, of del bd]
  note r0 = zipAndMove_succeeds[OF assms(7) assms(3) k2 assms(9) refl, of del bd]
  let ?w2 = "snd (zipAndMove del wd bd env2 ?w1)"
  have f2: "files ?w2 = put_file ?p2 ?b2 (put_file ?p1 ?b1 (files w))" by (simp add: r2 f1)
  have nm: "(?p1 = ?p2) = same_second (now env1) (now env2)"
    by (simp add: Join_inj zipFileName_same_second[OF assms(1,2)])
  have a: "fst (zipAndMove del wd bd env1 w) = None" by (simp add: r1)
  have b: "fst (zipAndMove del wd bd env2 ?w1) = None" by (simp add: r2)
  have c: "map_of (files ?w1) ?p1 = Some ?b1" by (simp add: f1 map_of_put_file)
  have d: "map_of (files ?w2) ?p2 = Some ?b2" by (simp add: f2 map_of_put_file)
  have e: "\<not> same_second (now env1) (now env2) \<Longrightarrow>
             ?p1 \<noteq> ?p2 \<and> map_of (files ?w2) ?p1 = Some ?b1
           \<and> fst ` set (files ?w2) = fst ` set (files w) \<union> {?p1, ?p2}"
    using nm by (auto simp: f2 map_of_put_file keys_put_file)
  have f: "same_second (now env1) (now env2) \<Longrightarrow>
             fst ` set (files ?w2) = fst ` set (files w) \<union> {?p1}
           \<and> length (filter (\<lambda>kv. fst kv = ?p1) (files ?w2)) = 1"
    using nm by (auto simp: f2 keys_put_file one_put_file)
  have g: "news ?w1 ?w2 = news w (snd (zipAndMove del wd bd env2 w))"
    by (simp add: r2 r0 news_def)
  show ?thesis
    unfolding Let_def
    using a b c d e f g nm zipFileName_nanosecond[of n "now env1"]
      zipFileName_shape[OF assms(1)]
    by blast
qed

theorem bundle_named_by_second_witness:
  "valid_clock (now (ex_env ex_tree ex_clock))
   \<and> valid_clock (now (ex_env ex_tree2 (ex_clock\<lparr>nanosecond := 999\<rparr>)))
   \<and> valid_clock (now (ex_env ex_tree2 (ex_clock\<lparr>second := 1\<rparr>)))
   \<and> backup_dir ex_world
   \<and> healthy (tree (ex_env ex_tree ex_clock)) \<and> healthy (tree (ex_env ex_tree2 (ex_clock\<lparr>second := 1\<rparr>)))
   \<and> same_second (now (ex_env ex_tree ex_clock)) (now (ex_env ex_tree2 (ex_clock\<lparr>nanosecond := 999\<rparr>)))
   \<and> map_of (files (snd (zipAndMove False ''in'' ''out'' (ex_env ex_tree2 (ex_clock\<lparr>nanosecond := 999\<rparr>))
                 (snd (zipAndMove False ''in'' ''out'' (ex_env ex_tree ex_clock) ex_world)))))
        ''out/backup_20250309_070500.zip'' =
       Some \<lparr>entries = [(''c.txt'', ''again'')], writer_closed = True\<rparr>
   \<and> fst ` set (files (snd (zipAndMove False ''in'' ''out'' (ex_env ex_tree2 (ex_clock\<lparr>nanosecond := 999\<rparr>))
                 (snd (zipAndMove False ''in'' ''out'' (ex_env ex_tree ex_clock) ex_world))))) =
       {''out/backup_20250309_070500.zip''}
   \<and> \<not> same_second (now (ex_env ex_tree ex_clock)) (now (ex_env ex_tree2 (ex_clock\<lparr>second := 1\<rparr>)))
   \<and> map_of (files (snd (zipAndMove False ''in'' ''out'' (ex_env ex_tree2 (ex_clock\<lparr>second := 1\<rparr>))
                 (snd (zipAndMove False ''in'' ''out'' (ex_env ex_tree ex_clock) ex_world)))))
        ''out/backup_20250309_070500.zip'' =
       Some \<lparr>entries = [(''a.txt'', ''hello''), (''sub/b.txt'', ''world'')], writer_closed = True\<rparr>
   \<and> map_of (files (snd (zipAndMove False ''in'' ''out'' (ex_env ex_tree2 (ex_clock\<lparr>second := 1\<rparr>))
                 (snd (zipAndMove False ''in'' ''out'' (ex_env ex_tree ex_clock) ex_world)))))
        ''out/backup_20250309_070501.zip'' =
       Some \<lparr>entries = [(''c.txt'', ''again'')], writer_closed = True\<rparr>"
proof -
  let ?A = "ex_env ex_tree ex_clock"
  let ?B = "ex_env ex_tree2 (ex_clock\<lparr>nanosecond := 999\<rparr>)"
  let ?C = "ex_env ex_tree2 (ex_clock\<lparr>second := 1\<rparr>)"
  have v: "valid_clock (now ?A)" "valid_clock (now ?B)" "valid_clock (now ?C)" by code_simp+
  have d: "backup_dir ex_world" by code_simp
  have h: "healthy (tree ?A)" "healthy (tree ?B)" "healthy (tree ?C)" by code_simp+
  have c: "create_err ?A = None" "create_err ?B = None" "create_err ?C = None"
    by (simp_all add: ex_env_def)
  have r: "rename_err ?A = None" "rename_err ?B = None" "rename_err ?C = None"
    by (simp_all add: ex_env_def)
  have z: "(zipclose_err ?A = None) = True" "(zipclose_err ?B = None) = True" "(zipclose_err ?C = None) = True"
    by (simp_all add: ex_env_def)
  have s: "same_second (now ?A) (now ?B)" "\<not> same_second (now ?A) (now ?C)" by code_simp+
  have n: "Join ''out'' (zipFileName (now ?A)) = ''out/backup_20250309_070500.zip''"
    "Join ''out'' (zipFileName (now ?B)) = ''out/backup_20250309_070500.zip''"
    "Join ''out'' (zipFileName (now ?C)) = ''out/backup_20250309_070501.zip''"
    by code_simp+
  have e: "map entry_of (regular_files (tree ?A)) = [(''a.txt'', ''hello''), (''sub/b.txt'', ''world'')]"
    "map entry_of (regular_files (tree ?B)) = [(''c.txt'', ''again'')]"
    "map entry_of (regular_files (tree ?C)) = [(''c.txt'', ''again'')]"
    by code_simp+
  have f: "fst ` set (files ex_world) = {}" by (simp add: ex_world_def)
  note tB = bundle_named_by_second[where bd = "''out''" and n = 0 and del = False and wd = "''in''",
      OF v(1) v(2) d c(1) h(1) r(1) c(2) h(2) r(2), unfolded Let_def n e z f]
  note tC = bundle_named_by_second[where bd = "''out''" and n = 0 and del = False and wd = "''in''",
      OF v(1) v(3) d c(1) h(1) r(1) c(3) h(3) r(3), unfolded Let_def n e z f]
  from tB s(1) have B: "map_of (files (snd (zipAndMove False ''in'' ''out'' ?B
                 (snd (zipAndMove False ''in'' ''out'' ?A ex_world)))))
        ''out/backup_20250309_070500.zip'' =
       Some \<lparr>entries = [(''c.txt'', ''again'')], writer_closed = True\<rparr>"
     "fst ` set (files (snd (zipAndMove False ''in'' ''out'' ?B
                 (snd (zipAndMove False ''in'' ''out'' ?A ex_world))))) =
       {''out/backup_20250309_070500.zip''}"
    by simp_all
  from tC s(2) have C: "map_of (files (snd (zipAndMove False ''in'' ''out'' ?C
                 (snd (zipAndMove False ''in'' ''out'' ?A ex_world)))))
        ''out/backup_20250309_070500.zip'' =
       Some \<lparr>entries = [(''a.txt'', ''hello''), (''sub/b.txt'', ''world'')], writer_closed = True\<rparr>"
     "map_of (files (snd (zipAndMove False ''in'' ''out'' ?C
                 (snd (zipAndMove False ''in'' ''out'' ?A ex_world)))))
        ''out/backup_20250309_070501.zip'' =
       Some \<lparr>entries = [(''c.txt'', ''again'')], writer_closed = True\<rparr>"
    by simp_all
  from v d h s B C show ?thesis by blast
qed

section \<open>The bundle holds the regular files of the tree\<close>

text \<open>
  C1. Let no call of the run fail: the tree is healthy, the bundle file can be created,
  renamed and closed. Then \<^verbatim>\<open>zipAndMove\<close> returns nil and the bundle in the backup folder is
  a closed archive whose entries are, in walk order, one per regular file of the tree:
  the name is the path of the file relative to the watch root and the content is the bytes
  of the file. Directories give no entry. With the names of the tree in order the paths
  are pairwise distinct and so are the entry names, so the set of entry names is exactly
  the set of relative paths and no file is entered twice.
\<close>

theorem zipAndMove_archives_regular_files:
  assumes "healthy (tree env)" and "backup_dir w" and "create_err env = None"
    and "rename_err env = None" and "zipclose_err env = None"
  shows "fst (zipAndMove del wd bd env w) = None
       \<and> map_of (files (snd (zipAndMove del wd bd env w))) (Join bd (zipFileName (now env))) =
            Some \<lparr>entries = map (\<lambda>f. (Rel (fst f), fst (snd f))) (regular_files (tree env)),
                  writer_closed = True\<rparr>
       \<and> (names_ok (tree env) \<longrightarrow>
             distinct (map fst (regular_files (tree env)))
           \<and> distinct (map (\<lambda>f. Rel (fst f)) (regular_files (tree env))))"
proof -
  note wk = Walk_archive_healthy[OF assms(1), of wd]
  note r = zipAndMove_succeeds[OF assms(3) assms(2) wk assms(4) refl, of del bd]
  have e: "map entry_of (regular_files (tree env)) =
           map (\<lambda>f. (Rel (fst f), fst (snd f))) (regular_files (tree env))"
    by (simp add: entry_of_def)
  have a: "fst (zipAndMove del wd bd env w) = None" by (simp add: r)
  have b: "map_of (files (snd (zipAndMove del wd bd env w))) (Join bd (zipFileName (now env))) =
            Some \<lparr>entries = map (\<lambda>f. (Rel (fst f), fst (snd f))) (regular_files (tree env)),
                  writer_closed = True\<rparr>"
    using assms(5) by (simp add: r map_of_put_file e)
  from a b regular_files_distinct(1) entry_names_distinct show ?thesis by blast
qed

theorem zipAndMove_archives_regular_files_witness:
  "healthy (tree (ex_env ex_tree ex_clock)) \<and> backup_dir ex_world
   \<and> create_err (ex_env ex_tree ex_clock) = None \<and> rename_err (ex_env ex_tree ex_clock) = None
   \<and> zipclose_err (ex_env ex_tree ex_clock) = None \<and> names_ok (tree (ex_env ex_tree ex_clock))
   \<and> fst (zipAndMove False ''in'' ''out'' (ex_env ex_tree ex_clock) ex_world) = None
   \<and> map_of (files (snd (zipAndMove False ''in'' ''out'' (ex_env ex_tree ex_clock) ex_world)))
        ''out/backup_20250309_070500.zip'' =
       Some \<lparr>entries = [(''a.txt'', ''hello''), (''sub/b.txt'', ''world'')], writer_closed = True\<rparr>
   \<and> distinct (map (\<lambda>f. Rel (fst f)) (regular_files (tree (ex_env ex_tree ex_clock))))"
proof -
  let ?E = "ex_env ex_tree ex_clock"
  have h: "healthy (tree ?E)" by code_simp
  have d: "backup_dir ex_world" by code_simp
  have c: "create_err ?E = None" "rename_err ?E = None" "zipclose_err ?E = None"
    by (simp_all add: ex_env_def)
  have k: "names_ok (tree ?E)" by code_simp
  have n: "Join ''out'' (zipFileName (now ?E)) = ''out/backup_20250309_070500.zip''" by code_simp
  have e: "map (\<lambda>f. (Rel (fst f), fst (snd f))) (regular_files (tree ?E)) =
             [(''a.txt'', ''hello''), (''sub/b.txt'', ''world'')]"
    by code_simp
  note t = zipAndMove_archives_regular_files[OF h d c, of False "''in''" "''out''", unfolded n e]
  from t h d c k show ?thesis by blast
qed

section \<open>Retention: the deleting walk stops at the first failure\<close>

text \<open>
  C2, as the code has it. With retention enabled (the flag set) and a run whose creation,
  walk and rename succeed, let \<open>f\<close> be the first regular file, in walk order, whose removal
  fails. The callback returns the error of \<^verbatim>\<open>os.Remove\<close>, which ends the walk: exactly the
  regular files before \<open>f\<close> are removed, \<open>f\<close> and every file after it stay, and no
  directory is removed. The failure is logged once, as \<^verbatim>\<open>Error deleting files\<close>, and goes no
  further: \<^verbatim>\<open>zipAndMove\<close> returns nil and the monitor loop goes on to the next receive.
\<close>

theorem deletion_stops_at_first_failure:
  assumes "healthy (tree env)" and "backup_dir w" and "create_err env = None"
    and "rename_err env = None"
    and "regular_files (tree env) = before @ f # after"
    and "list_all removable before" and "remove_err (snd (snd f)) = Some e"
  shows "fst (zipAndMove True wd bd env w) = None
       \<and> removed (news w (snd (zipAndMove True wd bd env w))) = map (\<lambda>g. walk_path wd (fst g)) before
       \<and> Log (''Error deleting files: '' @ e) \<in> set (news w (snd (zipAndMove True wd bd env w)))
       \<and> (Op ev AND Create = Create \<longrightarrow>
            monitor True wd bd (Event ev env # ms) w =
              monitor True wd bd ms
                (snd (zipAndMove True wd bd env
                        (emit (Sleep 1000000000) (emit (Log (''Detected new file: '' @ Name ev)) w)))))"
proof -
  let ?p = "Join bd (zipFileName (now env))"
  note wk = Walk_archive_healthy[OF assms(1), of wd]
  obtain es where dl: "Walk (deleteFn wd) (tree env) [] = (Some e, es)"
    and rm: "removed es = map (\<lambda>g. walk_path wd (fst g)) before"
    using delete_list_stops[OF assms(6,7), of wd after "[]"] Walk_delete_healthy[OF assms(1), of wd]
      assms(5) by auto
  have a: "fst (zipAndMove True wd bd env w) = None" if "backup_dir w" for w
    using zipAndMove_succeeds[OF assms(3) that wk assms(4) refl, of True bd] by simp
  have n: "news w (snd (zipAndMove True wd bd env w)) =
             [OsCreate ?p, Stdout (''Zip file path: '' @ ?p)] @
             map (added_line wd) (regular_files (tree env)) @
             [OsRename ?p ?p, Log (''Moved zip to: '' @ ?p)] @
             (es @ [Log (''Error deleting files: '' @ e)]) @
             [ZipWriterClose (zipclose_err env), FileClose (fileclose_err env)]"
    by (rule news_append)
       (simp add: zipAndMove_succeeds[OF assms(3) assms(2) wk assms(4) refl, of True bd] dl)
  have b: "removed (news w (snd (zipAndMove True wd bd env w))) = map (\<lambda>g. walk_path wd (fst g)) before"
    unfolding n by (simp add: removed_append removed_added rm)
  have c: "Log (''Error deleting files: '' @ e) \<in> set (news w (snd (zipAndMove True wd bd env w)))"
    unfolding n by simp
  have d: "monitor True wd bd (Event ev env # ms) w =
              monitor True wd bd ms
                (snd (zipAndMove True wd bd env
                        (emit (Sleep 1000000000) (emit (Log (''Detected new file: '' @ Name ev)) w))))"
    if cr: "Op ev AND Create = Create"
  proof -
    let ?w2 = "emit (Sleep 1000000000) (emit (Log (''Detected new file: '' @ Name ev)) w)"
    have "backup_dir ?w2" using assms(2) by (simp add: zipAndMove_keeps_dir)
    from a[OF this] obtain w3 where z: "zipAndMove True wd bd env ?w2 = (None, w3)"
      by (metis prod.collapse)
    show ?thesis unfolding monitor_create_step[OF cr] z by simp
  qed
  from a[OF assms(2)] b c d show ?thesis by blast
qed

theorem deletion_stops_at_first_failure_witness:
  "healthy (tree (ex_env ex_locked_tree ex_clock)) \<and> backup_dir ex_world
   \<and> create_err (ex_env ex_locked_tree ex_clock) = None
   \<and> rename_err (ex_env ex_locked_tree ex_clock) = None
   \<and> regular_files (tree (ex_env ex_locked_tree ex_clock)) =
        [([''a.txt''], ''hello'', ex_ops)] @
        ([''b.txt''], ''world'', ex_ops\<lparr>remove_err := Some ''remove in/b.txt: permission denied''\<rparr>) #
        [([''c.txt''], ''later'', ex_ops)]
   \<and> list_all removable [([''a.txt''], ''hello'', ex_ops)]
   \<and> remove_err (snd (snd ([''b.txt''], ''world'', ex_ops\<lparr>remove_err := Some ''remove in/b.txt: permission denied''\<rparr>)))
        = Some ''remove in/b.txt: permission denied''
   \<and> fst (zipAndMove True ''in'' ''out'' (ex_env ex_locked_tree ex_clock) ex_world) = None
   \<and> removed (news ex_world (snd (zipAndMove True ''in'' ''out'' (ex_env ex_locked_tree ex_clock) ex_world)))
        = [''in/a.txt'']
   \<and> Log ''Error deleting files: remove in/b.txt: permission denied''
        \<in> set (news ex_world (snd (zipAndMove True ''in'' ''out'' (ex_env ex_locked_tree ex_clock) ex_world)))"
proof -
  let ?E = "ex_env ex_locked_tree ex_clock"
  let ?b = "([''b.txt''], ''world'', ex_ops\<lparr>remove_err := Some ''remove in/b.txt: permission denied''\<rparr>)"
  have h: "healthy (tree ?E)" by code_simp
  have d: "backup_dir ex_world" by code_simp
  have c: "create_err ?E = None" "rename_err ?E = None" by (simp_all add: ex_env_def)
  have r: "regular_files (tree ?E) = [([''a.txt''], ''hello'', ex_ops)] @ ?b # [([''c.txt''], ''later'', ex_ops)]"
    by (simp add: ex_env_def ex_locked_tree_def)
  have l: "list_all removable [([''a.txt''], ''hello'', ex_ops)]"
    by (simp add: removable_def ex_ops_def)
  have f: "remove_err (snd (snd ?b)) = Some ''remove in/b.txt: permission denied''" by simp
  have m: "map (\<lambda>g. walk_path ''in'' (fst g)) [([''a.txt''], ''hello'', ex_ops)] = [''in/a.txt'']"
    by (simp add: walk_path_def Join_def)
  note t = deletion_stops_at_first_failure[OF h d c r l f, of "''in''" "''out''", unfolded m]
  from t have "fst (zipAndMove True ''in'' ''out'' ?E ex_world) = None"
    "removed (news ex_world (snd (zipAndMove True ''in'' ''out'' ?E ex_world))) = [''in/a.txt'']"
    "Log (''Error deleting files: '' @ ''remove in/b.txt: permission denied'')
        \<in> set (news ex_world (snd (zipAndMove True ''in'' ''out'' ?E ex_world)))"
    by blast+
  with h d c r l f show ?thesis by simp
qed

text \<open>
  The walk does not go on to the remaining files: of \<^verbatim>\<open>a.txt\<close>, \<^verbatim>\<open>b.txt\<close>, \<^verbatim>\<open>c.txt\<close> with
  the removal of \<^verbatim>\<open>b.txt\<close> failing, only \<^verbatim>\<open>a.txt\<close> is removed, although \<^verbatim>\<open>c.txt\<close> could
  be.
\<close>

theorem deletion_walk_continues_counterexample:
  "removed (news ex_world (snd (zipAndMove True ''in'' ''out'' (ex_env ex_locked_tree ex_clock) ex_world)))
     = [''in/a.txt'']
   \<and> map (\<lambda>g. walk_path ''in'' (fst g)) (filter removable (regular_files ex_locked_tree))
     = [''in/a.txt'', ''in/c.txt'']
   \<and> fst (zipAndMove True ''in'' ''out'' (ex_env ex_locked_tree ex_clock) ex_world) = None"
  by code_simp

end
